theory Spec2Isabelle
  imports Complex_Main "HOL-Library.Multiset"
begin

section \<open>Overview\<close>

text \<open>
  A shallow embedding of the audio-clock-driven compositor: the log listener registry,
  one redraw tick of the recorder and of the live preview, the recording session of
  \<open>renderVideo\<close> as the host drives it, and the frame sampler.

  JavaScript numbers are read in two ways.  Where a property rests on the guards, the
  order of the events or the shape of the data, a number is the real number it stands
  for, and every operation is exact: the registry, the recording session, the progress
  reports, the default of the clip end, the sampler as the exact loop.  Where a
  property is about the values the arithmetic produces (the scene index, the cover fit,
  the seek tolerance, the number of sampled frames), the code is embedded a second
  time, under names ending in \<open>64\<close>, with every \<open>+\<close>, \<open>-\<close>, \<open>*\<close> and \<open>/\<close>
  rounded as IEEE 754 binary64 rounds it: to a significand of 53 bits, to nearest, ties
  to even.  The exponent range is not modelled, so there is no overflow and no
  underflow; the theorems that depend on it bound their inputs.  \<open>%\<close>,
  \<open>Math.floor\<close>, \<open>Math.round\<close>, \<open>Math.abs\<close>, \<open>Math.min\<close> and \<open>Math.max\<close>
  are exact on doubles and are not rounded.
  The one non-number a well-formed input can produce, the remainder by zero (\<open>NaN\<close>),
  is kept as \<open>None\<close> where it can arise.  Promises are values: a rejection is \<open>Inl\<close>,
  a resolution \<open>Inr\<close>, and a promise that never settles is \<open>None\<close>.
\<close>

section \<open>The log listener registry (src/utils/logger.ts)\<close>

datatype LogType = info | success | error | warning | connect

record LogEntry =
  id' :: string
  timestamp :: nat
  message :: string
  type' :: LogType

text \<open>
  A listener is a callback; the registry compares callbacks by reference
  (\<open>indexOf\<close> uses strict equality), so a listener is modelled by its identity.
  What a callback does when it is called is given by a behaviour: from the entry and
  the registry as it stands to the registry it leaves behind, or \<open>None\<close> when the
  callback throws.
\<close>

type_synonym Listener = nat

type_synonym behaviour = "Listener \<Rightarrow> LogEntry \<Rightarrow> Listener list \<Rightarrow> Listener list option"

text \<open>\<open>Array.prototype.indexOf\<close>: the first index holding the element, or \<open>-1\<close>.\<close>

fun indexOf :: "'a list \<Rightarrow> 'a \<Rightarrow> int" where
  "indexOf [] x = - 1"
| "indexOf (y # ys) x =
     (if y = x then 0
      else (let i = indexOf ys x in if i = - 1 then - 1 else i + 1))"

text \<open>\<open>Array.prototype.splice(index, count)\<close> for an index within the array.\<close>

definition splice :: "'a list \<Rightarrow> nat \<Rightarrow> nat \<Rightarrow> 'a list" where
  "splice xs index n = take index xs @ drop (index + n) xs"

text \<open>The closure returned by \<open>subscribeToLogs\<close>, applied to the current registry.\<close>

definition unsubscribe :: "Listener \<Rightarrow> Listener list \<Rightarrow> Listener list" where
  "unsubscribe listener listeners =
     (let index = indexOf listeners listener
      in if index > - 1 then splice listeners (nat index) 1 else listeners)"

definition subscribeToLogs ::
  "Listener \<Rightarrow> Listener list \<Rightarrow> Listener list \<times> (Listener list \<Rightarrow> Listener list)" where
  "subscribeToLogs listener listeners = (listeners @ [listener], unsubscribe listener)"

text \<open>
  \<open>listeners.forEach(l => l(entry))\<close>.  \<open>forEach\<close> reads the length once, visits the
  indices below it in order and skips an index the array no longer has; an exception
  thrown by a callback ends the iteration.  The result is the list of callbacks called,
  the registry afterwards, and whether a callback threw.
\<close>

function forEach ::
  "behaviour \<Rightarrow> LogEntry \<Rightarrow> nat \<Rightarrow> nat \<Rightarrow> Listener list \<Rightarrow> Listener list
     \<Rightarrow> Listener list \<times> Listener list \<times> bool" where
  "forEach run entry k len listeners called =
     (if k < len then
        (if k < length listeners then
           (let l = listeners ! k in
            case run l entry listeners of
              None \<Rightarrow> (called @ [l], listeners, True)
            | Some listeners' \<Rightarrow> forEach run entry (k + 1) len listeners' (called @ [l]))
         else forEach run entry (k + 1) len listeners called)
      else (called, listeners, False))"
  by pat_completeness auto
termination
  by (relation "measure (\<lambda>(run, entry, k, len, listeners, called). len - k)") auto

declare forEach.simps [simp del]

fun toUpperCase :: "LogType \<Rightarrow> string" where
  "toUpperCase info = ''INFO''"
| "toUpperCase success = ''SUCCESS''"
| "toUpperCase error = ''ERROR''"
| "toUpperCase warning = ''WARNING''"
| "toUpperCase connect = ''CONNECT''"

record addLog_result =
  entry :: LogEntry
  console :: string
  called :: "Listener list"
  listeners_after :: "Listener list"
  threw :: bool

text \<open>
  \<open>addLog(message, type = 'info')\<close>.  The random id and the clock reading come from the
  host and are arguments here; an absent \<open>type\<close> is \<open>None\<close>.
\<close>

definition addLog ::
  "behaviour \<Rightarrow> string \<Rightarrow> nat \<Rightarrow> Listener list \<Rightarrow> string \<Rightarrow> LogType option \<Rightarrow> addLog_result" where
  "addLog run random now listeners msg ty =
     (let t = (case ty of None \<Rightarrow> info | Some t \<Rightarrow> t);
          e = \<lparr>id' = random, timestamp = now, message = msg, type' = t\<rparr>;
          line = ''['' @ toUpperCase t @ ''] '' @ msg;
          (cs, ls, thr) = forEach run e 0 (length listeners) listeners []
      in \<lparr>entry = e, console = line, called = cs, listeners_after = ls, threw = thr\<rparr>)"

text \<open>A callback that returns normally and leaves the registry alone.\<close>

definition inert :: "behaviour" where
  "inert l e ls = Some ls"

text \<open>A callback that calls its own unsubscribe handle while it is being called.\<close>

definition self_unsubscribing :: "Listener \<Rightarrow> behaviour" where
  "self_unsubscribing f l e ls = (if l = f then Some (unsubscribe f ls) else Some ls)"

section \<open>Numbers\<close>

text \<open>\<open>a || b\<close> on an optional number: an absent value and \<open>0\<close> are both falsy.\<close>

definition or_number :: "real option \<Rightarrow> real \<Rightarrow> real" where
  "or_number a b = (case a of None \<Rightarrow> b | Some x \<Rightarrow> if x = 0 then b else x)"

text \<open>
  \<open>a % b\<close>: the remainder of the division truncated towards zero, with the sign of the
  dividend; \<open>None\<close> is \<open>NaN\<close>, the remainder by zero.
\<close>

definition trunc :: "real \<Rightarrow> int" where
  "trunc x = (if x < 0 then \<lceil>x\<rceil> else \<lfloor>x\<rfloor>)"

definition js_rem :: "real \<Rightarrow> real \<Rightarrow> real option" where
  "js_rem a b = (if b = 0 then None else Some (a - b * of_int (trunc (a / b))))"

text \<open>The same operator on two integers, the divisor not zero.\<close>

definition js_rem_int :: "int \<Rightarrow> int \<Rightarrow> int" where
  "js_rem_int a b = sgn a * (\<bar>a\<bar> mod \<bar>b\<bar>)"

section \<open>Assets and the video element\<close>

datatype Platform = YOUTUBE | TIKTOK | INSTAGRAM | GENERIC

datatype AssetType = image' | video'

text \<open>
  Modelled from the spec: the declaration of \<open>VisualAsset\<close> (types.ts) is not among the
  sources.  The fields are the ones the code reads: \<open>type\<close> (here \<open>atype\<close>), a closed
  set of two kinds, and the optional \<open>base64\<close>, \<open>videoUrl\<close>, \<open>videoStart\<close> and
  \<open>videoEnd\<close>.
\<close>

record VisualAsset =
  atype :: AssetType
  base64 :: "string option"
  videoUrl :: "string option"
  videoStart :: "real option"
  videoEnd :: "real option"

text \<open>What the code reads of an \<open>HTMLVideoElement\<close>.\<close>

record HTMLVideoElement =
  readyState :: nat
  currentTime :: real
  videoWidth :: nat
  videoHeight :: nat
  paused :: bool

section \<open>One redraw tick of the recorder (drawFrame in renderVideo)\<close>

text \<open>
  A decoded image is its natural width and height.  The calls on the 2D context are
  recorded in order; \<open>drawImage\<close> carries the natural size of what is drawn.
\<close>

datatype drawable = Picture nat nat | Clip nat nat

datatype canvas_op =
    fillRect string real real real real
  | drawImage drawable real real real real

text \<open>
  How a tick ends: it requests the next animation frame, or it sets the timer that will
  stop the recorder and requests nothing, or it dies of the \<open>TypeError\<close> of reading
  \<open>asset.type\<close> of \<open>undefined\<close>.
\<close>

datatype tick_end = requestAnimationFrame | setTimeout_stop nat | TypeError

record tick =
  progress :: real
  scene :: "int option"
  targetTime :: "real option"
  seek :: "real option"
  ops :: "canvas_op list"
  ending :: tick_end

text \<open>The variables of \<open>renderVideo\<close> that \<open>drawFrame\<close> closes over.\<close>

record closure =
  width :: nat
  height :: nat
  duration :: real
  sceneDuration :: real
  assets :: "VisualAsset list"
  imgs :: "(nat \<times> nat) option list"

text \<open>Lines 155 to 157: the scene index and its clamp.\<close>

definition safeIndex :: "closure \<Rightarrow> real \<Rightarrow> int" where
  "safeIndex c elapsed =
     (let index = \<lfloor>elapsed / sceneDuration c\<rfloor>
      in min index (int (length (assets c)) - 1))"

text \<open>
  \<open>drawFrame\<close>, given the elapsed time it computed from the audio clock and the video
  element as it is at that moment.  \<open>progress\<close> is the argument of \<open>onProgress\<close>,
  \<open>scene\<close> the index the tick selected, \<open>targetTime\<close> the constant of that name
  (\<open>None\<close> when it is not computed or is \<open>NaN\<close>), \<open>seek\<close> the assignment to
  \<open>videoEl.currentTime\<close>.
\<close>

definition drawFrame :: "closure \<Rightarrow> real \<Rightarrow> HTMLVideoElement \<Rightarrow> tick" where
  "drawFrame c elapsed videoEl =
     (let progress = min 100 (elapsed / duration c * 100);
          begun = \<lparr>progress = progress, scene = None, targetTime = None, seek = None,
                    ops = [], ending = requestAnimationFrame\<rparr>
      in
      if elapsed \<ge> duration c then begun\<lparr>ending := setTimeout_stop 500\<rparr>
      else
        let i = safeIndex c elapsed;
            cleared = begun\<lparr>scene := Some i,
                        ops := [fillRect ''#000'' 0 0 (real (width c)) (real (height c))]\<rparr>
        in
        if i < 0 \<or> int (length (assets c)) \<le> i then cleared\<lparr>ending := TypeError\<rparr>
        else
          let asset = assets c ! nat i;
              img = (if nat i < length (imgs c) then imgs c ! nat i else None)
          in
          if atype asset = image' \<and> img \<noteq> None then
            (case img of
               Some (w, h) \<Rightarrow>
                 let scale = max (real (width c) / real w) (real (height c) / real h);
                     x = real (width c) / 2 - (real w / 2) * scale;
                     y = real (height c) / 2 - (real h / 2) * scale
                 in cleared\<lparr>ops := ops cleared @
                      [drawImage (Picture w h) x y (real w * scale) (real h * scale)]\<rparr>
             | None \<Rightarrow> cleared)
          else if atype asset = video' \<and> readyState videoEl \<ge> 2 then
            let timeInScene = js_rem elapsed (sceneDuration c);
                vStart = or_number (videoStart asset) 0;
                vEnd = or_number (videoEnd asset) (vStart + 5);
                clipLen = vEnd - vStart;
                target = (case timeInScene of
                            None \<Rightarrow> None
                          | Some t \<Rightarrow> map_option (\<lambda>r. vStart + r) (js_rem t clipLen));
                sought = (case target of
                            None \<Rightarrow> None
                          | Some t \<Rightarrow>
                              if \<bar>currentTime videoEl - t\<bar> > 0.2 then Some t else None);
                vw = videoWidth videoEl;
                vh = videoHeight videoEl;
                synced = cleared\<lparr>targetTime := target, seek := sought\<rparr>
            in
            if vw > 0 \<and> vh > 0 then
              let scale = max (real (width c) / real vw) (real (height c) / real vh);
                  x = real (width c) / 2 - (real vw / 2) * scale;
                  y = real (height c) / 2 - (real vh / 2) * scale
              in synced\<lparr>ops := ops synced @
                   [drawImage (Clip vw vh) x y (real vw * scale) (real vh * scale)]\<rparr>
            else synced
          else cleared)"

section \<open>One tick of the live preview (updateSlideshow)\<close>

datatype video_action = play | pause | leave

record preview_tick =
  index :: int
  preview_targetTime :: "real option"
  preview_seek :: "real option"
  action :: video_action
  again :: bool

text \<open>
  \<open>updateSlideshow\<close>: \<open>None\<close> is the early return of its first line.  The arguments
  are whether the audio context exists, the duration of the audio buffer if there is
  one, the assets, the elapsed time read from the audio clock, the preview video element
  if it is mounted, and \<open>isPlaying\<close>.
\<close>

definition updateSlideshow ::
  "bool \<Rightarrow> real option \<Rightarrow> VisualAsset list \<Rightarrow> real \<Rightarrow> HTMLVideoElement option \<Rightarrow> bool
     \<Rightarrow> preview_tick option" where
  "updateSlideshow audioContext audioBuffer assets' elapsed videoPreview isPlaying =
     (case audioBuffer of
        None \<Rightarrow> None
      | Some duration' \<Rightarrow>
          if \<not> audioContext \<or> length assets' = 0 then None
          else
            let sceneDuration' = duration' / real (length assets');
                i = js_rem_int \<lfloor>elapsed / sceneDuration'\<rfloor> (int (length assets'));
                asset = (if 0 \<le> i \<and> i < int (length assets') then Some (assets' ! nat i)
                         else None);
                idle = \<lparr>index = i, preview_targetTime = None, preview_seek = None,
                         action = leave, again = isPlaying\<rparr>
            in
            (case (asset, videoPreview) of
               (Some a, Some v) \<Rightarrow>
                 if atype a = video' then
                   let timeInScene = js_rem elapsed sceneDuration';
                       clipDuration = or_number (videoEnd a) 10 - or_number (videoStart a) 0;
                       target = (case timeInScene of
                                   None \<Rightarrow> None
                                 | Some t \<Rightarrow>
                                     map_option (\<lambda>r. or_number (videoStart a) 0 + r)
                                       (js_rem t clipDuration));
                       sought = (case target of
                                   None \<Rightarrow> None
                                 | Some t \<Rightarrow>
                                     if \<bar>currentTime v - t\<bar> > 0.5 then Some t else None)
                   in Some (idle\<lparr>preview_targetTime := target, preview_seek := sought,
                              action := (if paused v then play else leave)\<rparr>)
                 else Some (idle\<lparr>action := (if \<not> paused v then pause else leave)\<rparr>)
             | (_, Some v) \<Rightarrow> Some (idle\<lparr>action := (if \<not> paused v then pause else leave)\<rparr>)
             | (_, None) \<Rightarrow> Some idle))"

section \<open>The recording session (renderVideo)\<close>

text \<open>
  What the host decides: whether the canvas yields a 2D context, which MIME types the
  recorder supports, and what decoding a base64 image gives (its natural size, or
  \<open>None\<close> when \<open>onerror\<close> fires).
\<close>

record host =
  getContext :: bool
  isTypeSupported :: "string \<Rightarrow> bool"
  decode :: "string \<Rightarrow> (nat \<times> nat) option"

datatype failure = Error string | MediaError | Thrown

definition isLandscape :: "Platform \<Rightarrow> bool" where
  "isLandscape platform = (platform = YOUTUBE \<or> platform = GENERIC)"

definition mimeTypes :: "string list" where
  "mimeTypes = [''video/mp4'', ''video/webm;codecs=h264'', ''video/webm;codecs=vp9'',
                ''video/webm'']"

definition selectedMimeType :: "(string \<Rightarrow> bool) \<Rightarrow> string" where
  "selectedMimeType supported =
     (case find supported mimeTypes of Some t \<Rightarrow> t | None \<Rightarrow> ''video/webm'')"

definition loadedImages :: "host \<Rightarrow> VisualAsset list \<Rightarrow> (nat \<times> nat) option list" where
  "loadedImages h as =
     map (\<lambda>asset. case base64 asset of
                     Some b \<Rightarrow> if atype asset = image' \<and> b \<noteq> [] then decode h b else None
                   | None \<Rightarrow> None) as"

datatype RecordingState = inactive | recording

text \<open>
  The state of one render: the variables \<open>drawFrame\<close> closes over, the recorder and its
  chunks, whether a call of \<open>drawFrame\<close> is outstanding, the due times (milliseconds of
  wall-clock time) of the timers set, and the promise's value once resolved (the chunks
  of the blob and its type).  \<open>log\<close> is the history of the ticks run so far: the
  wall-clock time, the elapsed time and what the tick did.  \<open>stopped\<close> is the
  wall-clock time at which \<open>recorder.stop()\<close> ran.
\<close>

record session =
  vars :: closure
  mimeType :: string
  startTime :: real
  state :: RecordingState
  chunks :: "string list"
  frame_pending :: bool
  timers :: "nat list"
  now :: nat
  stop_pending :: bool
  resolved :: "(string list \<times> string) option"
  log :: "(nat \<times> real \<times> tick) list"
  stopped :: "nat option"

text \<open>
  The closure of \<open>drawFrame\<close> as \<open>renderVideo\<close> builds it: the canvas size from the
  platform, the duration of the audio buffer, the scene duration (line 130) and the
  preloaded images.
\<close>

definition closure_of :: "host \<Rightarrow> real \<Rightarrow> VisualAsset list \<Rightarrow> Platform \<Rightarrow> closure" where
  "closure_of h audioDuration as platform =
     \<lparr>width = (if isLandscape platform then 1920 else 1080),
      height = (if isLandscape platform then 1080 else 1920),
      duration = audioDuration,
      sceneDuration = audioDuration / real (length as),
      assets = as,
      imgs = loadedImages h as\<rparr>"

text \<open>
  \<open>renderVideo\<close> up to the first call of \<open>drawFrame\<close>: it rejects when there is no
  context, and otherwise starts the recorder and the audio source and reads the audio
  clock.  The duration is \<open>audioBuffer.duration\<close>; an \<open>AudioBuffer\<close> has at least one
  sample frame, so it is positive.
\<close>

definition renderVideo ::
  "host \<Rightarrow> real \<Rightarrow> VisualAsset list \<Rightarrow> Platform \<Rightarrow> real \<Rightarrow> failure + session" where
  "renderVideo h audioDuration as platform clock =
     (if \<not> getContext h then Inl (Error ''Could not get canvas context'')
      else Inr \<lparr>vars = closure_of h audioDuration as platform,
                mimeType = selectedMimeType (isTypeSupported h),
                startTime = clock,
                state = recording,
                chunks = [],
                frame_pending = True,
                timers = [],
                now = 0,
                stop_pending = False,
                resolved = None,
                log = [],
                stopped = None\<rparr>)"

text \<open>
  What the host does next: it runs the outstanding \<open>drawFrame\<close> (the audio clock and
  the video element being what they are then), lets wall-clock time pass, runs the
  oldest timer once it is due, delivers recorded data, or fires the recorder's
  \<open>stop\<close> event after \<open>recorder.stop()\<close> has run.
\<close>

datatype event =
    Frame real HTMLVideoElement
  | Elapse nat
  | Timer
  | DataAvailable string
  | Stop

fun step :: "session \<Rightarrow> event \<Rightarrow> session" where
  "step s (Frame clock videoEl) =
     (if \<not> frame_pending s then s
      else
        let elapsed = clock - startTime s;
            t = drawFrame (vars s) elapsed videoEl
        in s\<lparr>log := log s @ [(now s, elapsed, t)],
              frame_pending := (ending t = requestAnimationFrame),
              timers := (case ending t of
                           setTimeout_stop ms \<Rightarrow> timers s @ [now s + ms]
                         | _ \<Rightarrow> timers s)\<rparr>)"
| "step s (Elapse ms) = s\<lparr>now := now s + ms\<rparr>"
| "step s Timer =
     (case timers s of
        [] \<Rightarrow> s
      | due # rest \<Rightarrow>
          if now s < due then s
          else if state s = recording
            then s\<lparr>timers := rest, state := inactive, stop_pending := True,
                    stopped := Some (now s)\<rparr>
            else s\<lparr>timers := rest\<rparr>)"
| "step s (DataAvailable d) = (if length d > 0 then s\<lparr>chunks := chunks s @ [d]\<rparr> else s)"
| "step s Stop =
     (if stop_pending s
      then s\<lparr>stop_pending := False,
              resolved := (case resolved s of
                             None \<Rightarrow> Some (chunks s, mimeType s)
                           | Some b \<Rightarrow> Some b)\<rparr>
      else s)"

definition run :: "session \<Rightarrow> event list \<Rightarrow> session" where
  "run s evs = foldl step s evs"

text \<open>The audio clock readings of the frames in a list of events, in order.\<close>

fun clocks :: "event list \<Rightarrow> real list" where
  "clocks [] = []"
| "clocks (Frame clock v # evs) = clock # clocks evs"
| "clocks (e # evs) = clocks evs"

text \<open>
  \<open>handleDownloadVideo\<close>, as far as the render is concerned: \<open>None\<close> is its early
  return, otherwise the outcome of the call of \<open>renderVideo\<close>.  The audio buffer, if
  there is one, is given by its duration.
\<close>

definition handleDownloadVideo ::
  "host \<Rightarrow> real option \<Rightarrow> VisualAsset list \<Rightarrow> Platform \<Rightarrow> real \<Rightarrow> (failure + session) option" where
  "handleDownloadVideo h audioBuffer as selectedPlatform clock =
     (case audioBuffer of
        None \<Rightarrow> None
      | Some d \<Rightarrow>
          if length as = 0 then None else Some (renderVideo h d as selectedPlatform clock))"

section \<open>The frame sampler (extractFramesFromVideo)\<close>

record VideoFrame =
  frame_timestamp :: int
  frame_base64 :: string

text \<open>
  What the host decides about the uploaded file: its metadata (duration, width and
  height; \<open>None\<close> when \<open>onerror\<close> fires instead), whether the \<open>seeked\<close> event arrives
  after a seek to a given time, and the base64 payload captured at a given time
  (\<open>None\<close> when drawing or encoding throws).
\<close>

record video_file =
  loadedmetadata :: "(real \<times> nat \<times> nat) option"
  seeked :: "real \<Rightarrow> bool"
  capture :: "real \<Rightarrow> string option"

text \<open>
  The \<open>while\<close> loop of the sampler.  \<open>None\<close> means that the promise never settles:
  a seek is awaited forever, or the loop does not end.
\<close>

partial_function (option) sample ::
  "bool \<Rightarrow> video_file \<Rightarrow> real \<Rightarrow> real \<Rightarrow> real \<Rightarrow> VideoFrame list
     \<Rightarrow> (failure + VideoFrame list) option" where
  "sample ctx file intervalSeconds duration' currentTime' frames =
     (if currentTime' < duration' then
        (if \<not> seeked file currentTime' then None
         else if ctx then
           (case capture file currentTime' of
              None \<Rightarrow> Some (Inl Thrown)
            | Some b \<Rightarrow>
                sample ctx file intervalSeconds duration' (currentTime' + intervalSeconds)
                  (frames @ [\<lparr>frame_timestamp = round currentTime', frame_base64 = b\<rparr>]))
         else sample ctx file intervalSeconds duration' (currentTime' + intervalSeconds) frames)
      else Some (Inr frames))"

declare sample.simps [code]

text \<open>
  \<open>extractFramesFromVideo(videoFile, intervalSeconds = 3)\<close>; \<open>ctx\<close> is whether the
  canvas yielded a 2D context.
\<close>

definition extractFramesFromVideo ::
  "bool \<Rightarrow> video_file \<Rightarrow> real option \<Rightarrow> (failure + VideoFrame list) option" where
  "extractFramesFromVideo ctx videoFile intervalSeconds =
     (case loadedmetadata videoFile of
        None \<Rightarrow> Some (Inl MediaError)
      | Some (d, w, h) \<Rightarrow>
          sample ctx videoFile (case intervalSeconds of None \<Rightarrow> 3 | Some i \<Rightarrow> i) d 0 [])"

section \<open>Double-precision arithmetic\<close>

text \<open>
  The exponent of a positive number: the integer \<open>e\<close> with
  \<open>2^e \<le> x < 2^(e + 1)\<close>.
\<close>

function expo :: "real \<Rightarrow> int" where
  "expo x =
     (if x \<le> 0 then 0
      else if x < 1 then expo (2 * x) - 1
      else if 2 \<le> x then expo (x / 2) + 1
      else 0)"
  by pat_completeness auto
termination
proof (relation "measure (\<lambda>x. nat \<bar>\<lfloor>Transcendental.log 2 x\<rfloor>\<bar>)")
  show "wf (measure (\<lambda>x. nat \<bar>\<lfloor>Transcendental.log 2 x\<rfloor>\<bar>))" by simp
next
  fix x :: real
  assume "\<not> x \<le> 0" "x < 1"
  then have x: "0 < x" and "Transcendental.log 2 x < 0" by simp_all
  then have f: "\<lfloor>Transcendental.log 2 x\<rfloor> \<le> - 1" by (simp add: floor_le_iff)
  have "Transcendental.log 2 (2 * x) = 1 + Transcendental.log 2 x" using x by (simp add: log_mult)
  then have "\<lfloor>Transcendental.log 2 (2 * x)\<rfloor> = 1 + \<lfloor>Transcendental.log 2 x\<rfloor>" by simp
  then show "(2 * x, x) \<in> measure (\<lambda>x. nat \<bar>\<lfloor>Transcendental.log 2 x\<rfloor>\<bar>)" using f by simp
next
  fix x :: real
  assume "\<not> x \<le> 0" "\<not> x < 1" "2 \<le> x"
  then have x: "0 < x" and "1 \<le> Transcendental.log 2 x" by (simp_all add: le_log_iff)
  then have f: "1 \<le> \<lfloor>Transcendental.log 2 x\<rfloor>" by (simp add: le_floor_iff)
  have "Transcendental.log 2 (x / 2) = Transcendental.log 2 x - 1" using x by (simp add: log_divide)
  then have "\<lfloor>Transcendental.log 2 (x / 2)\<rfloor> = \<lfloor>Transcendental.log 2 x\<rfloor> - 1" by simp
  then show "(x / 2, x) \<in> measure (\<lambda>x. nat \<bar>\<lfloor>Transcendental.log 2 x\<rfloor>\<bar>)" using f by simp
qed

declare expo.simps [simp del]

text \<open>Rounding to the nearest integer, a tie going to the even one.\<close>

definition round_even :: "real \<Rightarrow> int" where
  "round_even y =
     (let f = \<lfloor>y\<rfloor>; r = y - of_int f
      in if r < 1 / 2 then f
         else if 1 / 2 < r then f + 1
         else if even f then f else f + 1)"

text \<open>
  The double nearest to a real number: the number is scaled so that its significand is
  an integer of 53 bits, rounded, and scaled back.
\<close>

definition fl :: "real \<Rightarrow> real" where
  "fl x =
     (if x = 0 then 0
      else let q = 2 powi (expo \<bar>x\<bar> - 52)
           in of_int (round_even (x / q)) * q)"

text \<open>The unit roundoff: the relative error of one rounding is at most this.\<close>

definition roundoff :: real where
  "roundoff = 1 / 2 ^ 53"

text \<open>The four operations of JavaScript on two doubles.\<close>

definition fadd :: "real \<Rightarrow> real \<Rightarrow> real" where
  "fadd a b = fl (a + b)"

definition fsub :: "real \<Rightarrow> real \<Rightarrow> real" where
  "fsub a b = fl (a - b)"

definition fmul :: "real \<Rightarrow> real \<Rightarrow> real" where
  "fmul a b = fl (a * b)"

definition fdiv :: "real \<Rightarrow> real \<Rightarrow> real" where
  "fdiv a b = fl (a / b)"

section \<open>The code in double precision\<close>

text \<open>
  The closure of \<open>drawFrame\<close> with the scene duration as line 130 computes it, one
  rounded division.
\<close>

definition closure64 :: "host \<Rightarrow> real \<Rightarrow> VisualAsset list \<Rightarrow> Platform \<Rightarrow> closure" where
  "closure64 h audioDuration as platform =
     (closure_of h audioDuration as platform)
       \<lparr>sceneDuration := fdiv audioDuration (real (length as))\<rparr>"

text \<open>Lines 155 to 157: the quotient is rounded before \<open>Math.floor\<close> sees it.\<close>

definition safeIndex64 :: "closure \<Rightarrow> real \<Rightarrow> int" where
  "safeIndex64 c elapsed =
     (let index = \<lfloor>fdiv elapsed (sceneDuration c)\<rfloor>
      in min index (int (length (assets c)) - 1))"

text \<open>
  \<open>drawFrame\<close>, lines 142 to 204, operation by operation.  The literal \<open>0.2\<close> is
  the double nearest to one fifth.
\<close>

definition drawFrame64 :: "closure \<Rightarrow> real \<Rightarrow> HTMLVideoElement \<Rightarrow> tick" where
  "drawFrame64 c elapsed videoEl =
     (let progress = min 100 (fmul (fdiv elapsed (duration c)) 100);
          begun = \<lparr>progress = progress, scene = None, targetTime = None, seek = None,
                    ops = [], ending = requestAnimationFrame\<rparr>
      in
      if elapsed \<ge> duration c then begun\<lparr>ending := setTimeout_stop 500\<rparr>
      else
        let i = safeIndex64 c elapsed;
            cleared = begun\<lparr>scene := Some i,
                        ops := [fillRect ''#000'' 0 0 (real (width c)) (real (height c))]\<rparr>
        in
        if i < 0 \<or> int (length (assets c)) \<le> i then cleared\<lparr>ending := TypeError\<rparr>
        else
          let asset = assets c ! nat i;
              img = (if nat i < length (imgs c) then imgs c ! nat i else None)
          in
          if atype asset = image' \<and> img \<noteq> None then
            (case img of
               Some (w, h) \<Rightarrow>
                 let scale = max (fdiv (real (width c)) (real w)) (fdiv (real (height c)) (real h));
                     x = fsub (fdiv (real (width c)) 2) (fmul (fdiv (real w) 2) scale);
                     y = fsub (fdiv (real (height c)) 2) (fmul (fdiv (real h) 2) scale)
                 in cleared\<lparr>ops := ops cleared @
                      [drawImage (Picture w h) x y (fmul (real w) scale) (fmul (real h) scale)]\<rparr>
             | None \<Rightarrow> cleared)
          else if atype asset = video' \<and> readyState videoEl \<ge> 2 then
            let timeInScene = js_rem elapsed (sceneDuration c);
                vStart = or_number (videoStart asset) 0;
                vEnd = or_number (videoEnd asset) (fadd vStart 5);
                clipLen = fsub vEnd vStart;
                target = (case timeInScene of
                            None \<Rightarrow> None
                          | Some t \<Rightarrow> map_option (\<lambda>r. fadd vStart r) (js_rem t clipLen));
                sought = (case target of
                            None \<Rightarrow> None
                          | Some t \<Rightarrow>
                              if \<bar>fsub (currentTime videoEl) t\<bar> > fl 0.2 then Some t else None);
                vw = videoWidth videoEl;
                vh = videoHeight videoEl;
                synced = cleared\<lparr>targetTime := target, seek := sought\<rparr>
            in
            if vw > 0 \<and> vh > 0 then
              let scale = max (fdiv (real (width c)) (real vw)) (fdiv (real (height c)) (real vh));
                  x = fsub (fdiv (real (width c)) 2) (fmul (fdiv (real vw) 2) scale);
                  y = fsub (fdiv (real (height c)) 2) (fmul (fdiv (real vh) 2) scale)
              in synced\<lparr>ops := ops synced @
                   [drawImage (Clip vw vh) x y (fmul (real vw) scale) (fmul (real vh) scale)]\<rparr>
            else synced
          else cleared)"

text \<open>\<open>updateSlideshow\<close>, lines 477 to 508, operation by operation.\<close>

definition updateSlideshow64 ::
  "bool \<Rightarrow> real option \<Rightarrow> VisualAsset list \<Rightarrow> real \<Rightarrow> HTMLVideoElement option \<Rightarrow> bool
     \<Rightarrow> preview_tick option" where
  "updateSlideshow64 audioContext audioBuffer assets' elapsed videoPreview isPlaying =
     (case audioBuffer of
        None \<Rightarrow> None
      | Some duration' \<Rightarrow>
          if \<not> audioContext \<or> length assets' = 0 then None
          else
            let sceneDuration' = fdiv duration' (real (length assets'));
                i = js_rem_int \<lfloor>fdiv elapsed sceneDuration'\<rfloor> (int (length assets'));
                asset = (if 0 \<le> i \<and> i < int (length assets') then Some (assets' ! nat i)
                         else None);
                idle = \<lparr>index = i, preview_targetTime = None, preview_seek = None,
                         action = leave, again = isPlaying\<rparr>
            in
            (case (asset, videoPreview) of
               (Some a, Some v) \<Rightarrow>
                 if atype a = video' then
                   let timeInScene = js_rem elapsed sceneDuration';
                       clipDuration = fsub (or_number (videoEnd a) 10) (or_number (videoStart a) 0);
                       target = (case timeInScene of
                                   None \<Rightarrow> None
                                 | Some t \<Rightarrow>
                                     map_option (\<lambda>r. fadd (or_number (videoStart a) 0) r)
                                       (js_rem t clipDuration));
                       sought = (case target of
                                   None \<Rightarrow> None
                                 | Some t \<Rightarrow>
                                     if \<bar>fsub (currentTime v) t\<bar> > fl 0.5 then Some t else None)
                   in Some (idle\<lparr>preview_targetTime := target, preview_seek := sought,
                              action := (if paused v then play else leave)\<rparr>)
                 else Some (idle\<lparr>action := (if \<not> paused v then pause else leave)\<rparr>)
             | (_, Some v) \<Rightarrow> Some (idle\<lparr>action := (if \<not> paused v then pause else leave)\<rparr>)
             | (_, None) \<Rightarrow> Some idle))"

text \<open>
  The loop of the sampler with \<open>currentTime += intervalSeconds\<close> as a rounded
  addition.
\<close>

partial_function (option) sample64 ::
  "bool \<Rightarrow> video_file \<Rightarrow> real \<Rightarrow> real \<Rightarrow> real \<Rightarrow> VideoFrame list
     \<Rightarrow> (failure + VideoFrame list) option" where
  "sample64 ctx file intervalSeconds duration' currentTime' frames =
     (if currentTime' < duration' then
        (if \<not> seeked file currentTime' then None
         else if ctx then
           (case capture file currentTime' of
              None \<Rightarrow> Some (Inl Thrown)
            | Some b \<Rightarrow>
                sample64 ctx file intervalSeconds duration' (fadd currentTime' intervalSeconds)
                  (frames @ [\<lparr>frame_timestamp = round currentTime', frame_base64 = b\<rparr>]))
         else sample64 ctx file intervalSeconds duration' (fadd currentTime' intervalSeconds) frames)
      else Some (Inr frames))"

declare sample64.simps [code]

definition extractFramesFromVideo64 ::
  "bool \<Rightarrow> video_file \<Rightarrow> real option \<Rightarrow> (failure + VideoFrame list) option" where
  "extractFramesFromVideo64 ctx videoFile intervalSeconds =
     (case loadedmetadata videoFile of
        None \<Rightarrow> Some (Inl MediaError)
      | Some (d, w, h) \<Rightarrow>
          sample64 ctx videoFile (case intervalSeconds of None \<Rightarrow> 3 | Some i \<Rightarrow> i) d 0 [])"

section \<open>The specification's formulas\<close>

text \<open>
  The target playback position in the specification's words: the mathematical
  remainder, and a clip end that defaults to the clip start plus five.
\<close>

definition spec_mod :: "real \<Rightarrow> real \<Rightarrow> real" where
  "spec_mod a b = a - b * of_int \<lfloor>a / b\<rfloor>"

definition spec_targetTime :: "real \<Rightarrow> real option \<Rightarrow> real \<Rightarrow> real \<Rightarrow> real" where
  "spec_targetTime clipStart clipEnd elapsed sceneDuration' =
     (let clipEnd' = (case clipEnd of None \<Rightarrow> clipStart + 5 | Some e \<Rightarrow> e)
      in clipStart + spec_mod (spec_mod elapsed sceneDuration') (clipEnd' - clipStart))"

text \<open>The specification's clamp.\<close>

definition clamp :: "int \<Rightarrow> int \<Rightarrow> int \<Rightarrow> int" where
  "clamp x lo hi = max lo (min hi x)"

text \<open>The natural size of what a \<open>drawImage\<close> draws.\<close>

fun natural_size :: "drawable \<Rightarrow> nat \<times> nat" where
  "natural_size (Picture w h) = (w, h)"
| "natural_size (Clip w h) = (w, h)"

text \<open>
  The cover-fit property of one canvas operation on the surface of a closure, for a
  source of a given natural size, in double precision.  The operation is a
  \<open>drawImage\<close> of that source; its size is the natural size times
  \<open>max(surfaceW / sourceW, surfaceH / sourceH)\<close> and its corner is half the surface
  less half the scaled size, each operation rounded; the drawn size covers the surface
  on both axes up to two roundings, meets it on one axis up to four, and the centre of
  what is drawn is the centre of the surface up to one rounding of the overhang.
\<close>

definition cover_fitted :: "closure \<Rightarrow> drawable \<Rightarrow> canvas_op \<Rightarrow> bool" where
  "cover_fitted c src op =
     (case op of
        fillRect style x y w h \<Rightarrow> False
      | drawImage drawn x y dw dh \<Rightarrow>
          (case natural_size src of (w, h) \<Rightarrow>
             let W = real (width c);
                 H = real (height c);
                 scale = max (fdiv W (real w)) (fdiv H (real h))
             in drawn = src
              \<and> dw = fmul (real w) scale \<and> dh = fmul (real h) scale
              \<and> x = fsub (fdiv W 2) (fmul (fdiv (real w) 2) scale)
              \<and> y = fsub (fdiv H 2) (fmul (fdiv (real h) 2) scale)
              \<and> W * (1 - 2 * roundoff) \<le> dw \<and> H * (1 - 2 * roundoff) \<le> dh
              \<and> (\<bar>dw - W\<bar> \<le> W * (4 * roundoff) \<or> \<bar>dh - H\<bar> \<le> H * (4 * roundoff))
              \<and> \<bar>(x + dw / 2) - W / 2\<bar> \<le> \<bar>W - dw\<bar> * roundoff
              \<and> \<bar>(y + dh / 2) - H / 2\<bar> \<le> \<bar>H - dh\<bar> * roundoff))"

text \<open>The frame the sampler pushes at a given time (line 47).\<close>

definition frame_at :: "video_file \<Rightarrow> real \<Rightarrow> VideoFrame" where
  "frame_at file t =
     \<lparr>frame_timestamp = round t,
      frame_base64 = (case capture file t of Some b \<Rightarrow> b | None \<Rightarrow> [])\<rparr>"

text \<open>
  A tick that found the elapsed time at or past the duration ran at least 500
  milliseconds before the time \<open>t\<close>.
\<close>

definition finished_by :: "session \<Rightarrow> nat \<Rightarrow> bool" where
  "finished_by s t = list_ex (\<lambda>(w, e, k). duration (vars s) \<le> e \<and> w + 500 \<le> t) (log s)"



text \<open>
  The elapsed times of the ticks run are the first audio clock readings of the frames,
  less the start time, and each tick reported \<open>min(100, elapsed / duration * 100)\<close>.
\<close>

definition reported :: "session \<Rightarrow> real list" where
  "reported s = map (\<lambda>(w, e, k). progress k) (log s)"

definition tracked :: "session \<Rightarrow> real list \<Rightarrow> bool" where
  "tracked s cs =
     (length (log s) \<le> length cs
      \<and> (if frame_pending s then length (log s) = length cs else True)
      \<and> map (\<lambda>(w, e, k). e) (log s) = take (length (log s)) (map (\<lambda>c. c - startTime s) cs)
      \<and> list_all (\<lambda>(w, e, k). progress k = min 100 (e / duration (vars s) * 100)) (log s))"

section \<open>Concrete inputs\<close>

definition a_host :: host where
  "a_host = \<lparr>getContext = True, isTypeSupported = (\<lambda>t. t = ''video/webm''),
             decode = (\<lambda>b. Some (800, 600))\<rparr>"

definition a_host_without_context :: host where
  "a_host_without_context = a_host\<lparr>getContext := False\<rparr>"

definition a_picture :: VisualAsset where
  "a_picture = \<lparr>atype = image', base64 = Some ''QUJD'', videoUrl = None,
                videoStart = None, videoEnd = None\<rparr>"

definition a_clip :: VisualAsset where
  "a_clip = \<lparr>atype = video', base64 = None, videoUrl = Some ''blob:clip'',
             videoStart = Some 2, videoEnd = Some 5\<rparr>"

definition an_open_clip :: VisualAsset where
  "an_open_clip = a_clip\<lparr>videoEnd := None\<rparr>"

definition a_video_element :: HTMLVideoElement where
  "a_video_element = \<lparr>readyState = 4, currentTime = 0, videoWidth = 1280,
                      videoHeight = 720, paused = False\<rparr>"

definition an_unloaded_video_element :: HTMLVideoElement where
  "an_unloaded_video_element = a_video_element\<lparr>readyState := 0\<rparr>"

definition a_video_file :: video_file where
  "a_video_file = \<lparr>loadedmetadata = Some (10, 1280, 720), seeked = (\<lambda>t. True),
                   capture = (\<lambda>t. Some ''QUJD'')\<rparr>"

definition a_small_video_element :: HTMLVideoElement where
  "a_small_video_element = a_video_element\<lparr>videoWidth := 1000, videoHeight := 563\<rparr>"

definition a_video_element_in_sync :: HTMLVideoElement where
  "a_video_element_in_sync = a_video_element\<lparr>currentTime := 25 / 8\<rparr>"

definition a_short_video_file :: video_file where
  "a_short_video_file = \<lparr>loadedmetadata = Some (1, 1280, 720), seeked = (\<lambda>t. True),
                         capture = (\<lambda>t. Some ''QUJD'')\<rparr>"

section \<open>The listener registry: lemmas\<close>

lemma indexOf_notin: "x \<notin> set xs \<Longrightarrow> indexOf xs x = - 1"
  by (induction xs) (auto simp: Let_def)

lemma indexOf_in: "x \<in> set xs \<Longrightarrow> 0 \<le> indexOf xs x \<and> nat (indexOf xs x) < length xs"
  by (induction xs) (auto simp: Let_def)

text \<open>The unsubscribe closure removes the first occurrence of its listener.\<close>

lemma unsubscribe_remove1: "unsubscribe l ls = remove1 l ls"
proof (induction ls)
  case Nil
  then show ?case by (simp add: unsubscribe_def splice_def)
next
  case (Cons a ls)
  show ?case
  proof (cases "a = l")
    case True
    then show ?thesis by (simp add: unsubscribe_def splice_def)
  next
    case False
    show ?thesis
    proof (cases "l \<in> set ls")
      case True
      with indexOf_in [OF True] False Cons show ?thesis
        by (auto simp add: unsubscribe_def splice_def Let_def nat_add_distrib)
    next
      case False
      with \<open>a \<noteq> l\<close> show ?thesis
        by (simp add: unsubscribe_def splice_def Let_def indexOf_notin remove1_idem)
    qed
  qed
qed

lemma unsubscribe_twice:
  assumes "count (mset reg) l \<le> 1"
  shows "unsubscribe l (unsubscribe l reg) = unsubscribe l reg"
proof -
  have "count (mset reg - {#l#}) l = 0" using assms by simp
  then have "count (mset (remove1 l reg)) l = 0" by (simp only: mset_remove1)
  then have "l \<notin> set (remove1 l reg)" by (rule count_mset_0_iff [THEN iffD1])
  then show ?thesis by (simp add: unsubscribe_remove1 remove1_idem)
qed

text \<open>With inert callbacks, \<open>forEach\<close> calls the rest of the registry in order.\<close>

lemma forEach_inert:
  "k \<le> length ls \<Longrightarrow> forEach inert e k (length ls) ls cs = (cs @ drop k ls, ls, False)"
proof (induction "length ls - k" arbitrary: k cs)
  case 0
  then show ?case by (simp add: forEach.simps)
next
  case (Suc n)
  then have k: "k < length ls" by simp
  have "forEach inert e k (length ls) ls cs
          = forEach inert e (k + 1) (length ls) ls (cs @ [ls ! k])"
    using k by (subst forEach.simps) (simp add: inert_def)
  also have "\<dots> = ((cs @ [ls ! k]) @ drop (k + 1) ls, ls, False)"
    using Suc k by (intro Suc.hyps(1)) auto
  finally show ?case using k by (simp add: Cons_nth_drop_Suc)
qed

text \<open>
  Claim C10, as amended.  Subscribing appends the listener and returns a handle.  Called
  on any later registry, the handle removes the first occurrence of that listener and
  nothing else: as a multiset the registry loses exactly one copy of it, the other
  listeners keep their places.  A second call of the handle changes nothing when the
  registry held the listener at most once.  When the callbacks return normally and leave
  the registry alone, \<open>addLog\<close> calls every listener of the registry, in order, with the
  new entry, and the registry is unchanged.
\<close>

theorem registry_subscribe_unsubscribe_deliver:
  "fst (subscribeToLogs l ls) = ls @ [l]
   \<and> snd (subscribeToLogs l ls) reg = remove1 l reg
   \<and> mset (snd (subscribeToLogs l ls) reg) = mset reg - {#l#}
   \<and> (count (mset reg) l \<le> 1 \<longrightarrow>
        snd (subscribeToLogs l ls) (snd (subscribeToLogs l ls) reg)
          = snd (subscribeToLogs l ls) reg)
   \<and> called (addLog inert random t reg msg ty) = reg
   \<and> listeners_after (addLog inert random t reg msg ty) = reg
   \<and> \<not> threw (addLog inert random t reg msg ty)
   \<and> entry (addLog inert random t reg msg ty)
        = \<lparr>id' = random, timestamp = t, message = msg,
           type' = (case ty of None \<Rightarrow> info | Some k \<Rightarrow> k)\<rparr>"
proof -
  have h: "snd (subscribeToLogs l ls) = unsubscribe l" by (simp add: subscribeToLogs_def)
  have d: "forEach inert e 0 (length reg) reg [] = (reg, reg, False)" for e
    using forEach_inert [of 0 reg e "[]"] by simp
  show ?thesis
    unfolding h
    by (simp add: subscribeToLogs_def unsubscribe_twice addLog_def d Let_def)
      (simp add: unsubscribe_remove1)
qed

text \<open>
  The theorem at a concrete registry: listener 7 subscribed after listener 3, its handle
  called twice on the registry \<open>[3, 7]\<close>, and an entry delivered to both.
\<close>

theorem registry_subscribe_unsubscribe_deliver_witness:
  "fst (subscribeToLogs 7 [3]) = [3, 7]
   \<and> snd (subscribeToLogs 7 [3]) [3, 7] = [3]
   \<and> snd (subscribeToLogs 7 [3]) (snd (subscribeToLogs 7 [3]) [3, 7]) = [3]
   \<and> called (addLog inert ''k3x'' 1700 [3, 7] ''ready'' None) = [3, 7]"
  using registry_subscribe_unsubscribe_deliver [of 7 "[3]" "[3, 7]" "''k3x''" 1700 "''ready''" None]
  by (simp add: subscribeToLogs_def unsubscribe_def splice_def)

text \<open>
  Claim C10 as stated fails twice.  A listener subscribed twice: the second call of the
  first handle is not a no-op, it removes the other occurrence.  A listener that calls
  its own handle while it is being called: the listener after it is skipped by that
  \<open>addLog\<close>.
\<close>

theorem registry_second_call_counterexample:
  "snd (subscribeToLogs 7 []) (fst (subscribeToLogs 7 (fst (subscribeToLogs 7 [])))) = [7]
   \<and> snd (subscribeToLogs 7 []) (snd (subscribeToLogs 7 [])
        (fst (subscribeToLogs 7 (fst (subscribeToLogs 7 []))))) = []
   \<and> called (addLog (self_unsubscribing 7) ''k3x'' 1700 [7, 8] ''ready'' None) = [7]"
  by (simp add: subscribeToLogs_def addLog_def forEach.simps self_unsubscribing_def
        unsubscribe_def splice_def)

section \<open>Double-precision rounding: lemmas\<close>

text \<open>The exponent brackets its argument, and is the only integer that does.\<close>

lemma expo_bounds:
  "0 < x \<Longrightarrow> 2 powi expo x \<le> x \<and> x < 2 powi (expo x + 1)"
proof (induction x rule: expo.induct)
  case (1 x)
  have p: "(2::real) powi (e - 1) = 2 powi e / 2" "(2::real) powi (e + 1) = 2 powi e * 2" for e
    by (simp_all add: power_int_diff power_int_add)
  consider "x < 1" | "2 \<le> x" | "1 \<le> x" "x < 2" by linarith
  then show ?case
  proof cases
    case 1
    have e: "expo x = expo (2 * x) - 1" using 1 \<open>0 < x\<close> by (subst expo.simps) simp
    have "2 powi expo (2 * x) \<le> 2 * x \<and> 2 * x < 2 powi (expo (2 * x) + 1)"
      using "1.IH"(1) 1 \<open>0 < x\<close> by simp
    then show ?thesis unfolding e by (simp add: p)
  next
    case 2
    have e: "expo x = expo (x / 2) + 1" using 2 by (subst expo.simps) simp
    have ih: "2 powi expo (x / 2) \<le> x / 2" "x / 2 < 2 powi (expo (x / 2) + 1)"
      using "1.IH"(2) 2 by simp_all
    have "2 powi (expo (x / 2) + 1) \<le> x" unfolding p(2) using ih(1) by linarith
    moreover have "x < 2 powi (expo (x / 2) + 1 + 1)"
      unfolding p(2) [of "expo (x / 2) + 1"] using ih(2) by linarith
    ultimately show ?thesis unfolding e by blast
  next
    case 3
    then have e: "expo x = 0" by (subst expo.simps) simp
    show ?thesis unfolding e using 3 by simp
  qed
qed

lemma expo_unique:
  assumes "0 < x" "2 powi e \<le> x" "x < 2 powi (e + 1)"
  shows "expo x = e"
proof (rule ccontr)
  assume ne: "expo x \<noteq> e"
  note b = expo_bounds [OF assms(1)]
  show False
  proof (cases "expo x < e")
    case True
    then have "(2::real) powi (expo x + 1) \<le> 2 powi e" by (intro power_int_increasing) simp_all
    then show False using b assms(2) by linarith
  next
    case False
    with ne have "e + 1 \<le> expo x" by simp
    then have "(2::real) powi (e + 1) \<le> 2 powi expo x" by (intro power_int_increasing) simp_all
    then show False using b assms(3) by linarith
  qed
qed

lemma round_even_near: "\<bar>of_int (round_even y) - y\<bar> \<le> 1 / 2"
proof -
  have "of_int \<lfloor>y\<rfloor> \<le> y" "y < of_int \<lfloor>y\<rfloor> + 1" by linarith+
  then show ?thesis by (auto simp: round_even_def Let_def)
qed

lemma round_even_of_int [simp]: "round_even (of_int m) = m"
  by (simp add: round_even_def)

lemma fl_zero [simp]: "fl 0 = 0"
  by (simp add: fl_def)

text \<open>One rounding is off by at most half a unit in the last place.\<close>

lemma fl_error: "\<bar>fl x - x\<bar> \<le> \<bar>x\<bar> / 2 ^ 53"
proof (cases "x = 0")
  case True
  then show ?thesis by simp
next
  case False
  define e where "e = expo \<bar>x\<bar>"
  define q :: real where "q = 2 powi (e - 52)"
  have q: "0 < q" by (simp add: q_def)
  have b: "2 powi e \<le> \<bar>x\<bar>" using expo_bounds [of "\<bar>x\<bar>"] False by (simp add: e_def)
  have fx: "fl x = of_int (round_even (x / q)) * q"
    using False by (simp add: fl_def Let_def q_def e_def)
  have "fl x - x = (of_int (round_even (x / q)) - x / q) * q"
    using q by (simp add: fx algebra_simps)
  then have "\<bar>fl x - x\<bar> = \<bar>of_int (round_even (x / q)) - x / q\<bar> * q"
    using q by (simp add: abs_mult)
  also have "\<dots> \<le> 1 / 2 * q"
    using q by (intro mult_right_mono round_even_near) simp
  also have "1 / 2 * q = 2 powi e / 2 ^ 53"
    by (simp add: q_def power_int_diff)
  also have "\<dots> \<le> \<bar>x\<bar> / 2 ^ 53" using b by (simp add: divide_right_mono)
  finally show ?thesis .
qed

lemma fl_nonneg: "0 \<le> x \<Longrightarrow> 0 \<le> fl x"
proof -
  assume x: "0 \<le> x"
  have a: "\<bar>fl x - x\<bar> \<le> x / 2 ^ 53" using fl_error [of x] x by simp
  have b: "x / 2 ^ 53 \<le> x" using x by (simp add: divide_le_eq)
  show ?thesis using a b by linarith
qed

lemma fl_pos: "0 < x \<Longrightarrow> 0 < fl x"
proof -
  assume x: "0 < x"
  have a: "\<bar>fl x - x\<bar> \<le> x / 2 ^ 53" using fl_error [of x] x by simp
  have b: "x / 2 ^ 53 < x" using x by (simp add: divide_less_eq)
  show ?thesis using a b by linarith
qed

lemma fl_error_roundoff: "\<bar>fl x - x\<bar> \<le> \<bar>x\<bar> * roundoff"
  using fl_error [of x] by (simp add: roundoff_def)

lemma roundoff_bounds: "0 \<le> roundoff" "0 < roundoff" "roundoff \<le> 1"
  by (simp_all add: roundoff_def)

lemma fl_bounds:
  assumes "0 \<le> x"
  shows "x * (1 - roundoff) \<le> fl x" "fl x \<le> x * (1 + roundoff)"
proof -
  have "\<bar>x\<bar> / 2 ^ 53 = x * roundoff" using assms by (simp add: roundoff_def)
  then have "\<bar>fl x - x\<bar> \<le> x * roundoff" using fl_error [of x] by simp
  then have "fl x - x \<le> x * roundoff" "x - fl x \<le> x * roundoff" by linarith+
  then show "x * (1 - roundoff) \<le> fl x" "fl x \<le> x * (1 + roundoff)"
    by (simp_all add: algebra_simps)
qed

text \<open>Whole numbers up to \<open>2 ^ 53\<close> are doubles.\<close>

lemma fl_of_nat:
  assumes "m \<le> 2 ^ 53"
  shows "fl (real m) = real m"
proof (cases "m = 0")
  case True
  then show ?thesis by simp
next
  case False
  define e where "e = expo (real m)"
  define q :: real where "q = 2 powi (e - 52)"
  have m: "0 < real m" using False by simp
  have b: "2 powi e \<le> real m" using expo_bounds [OF m] by (simp add: e_def)
  have m53: "real m \<le> 2 ^ 53" using assms by (metis of_nat_le_iff of_nat_numeral of_nat_power)
  have fx: "fl (real m) = of_int (round_even (real m / q)) * q"
    using False by (simp add: fl_def Let_def q_def e_def)
  have q0: "q \<noteq> 0" by (simp add: q_def)
  have "\<exists>z :: int. real m / q = of_int z"
  proof (cases "e \<le> 52")
    case True
    have "q = 1 / 2 powi (52 - e)"
      using power_int_minus_divide [of "2::real" "52 - e"] by (simp add: q_def)
    also have "\<dots> = 1 / 2 ^ nat (52 - e)" using True by (simp add: power_int_nonneg_exp)
    finally have "real m / q = of_int (int m * 2 ^ nat (52 - e))" by simp
    then show ?thesis by blast
  next
    case False
    have "e \<le> 53"
    proof (rule ccontr)
      assume "\<not> e \<le> 53"
      then have "(2::real) powi 54 \<le> 2 powi e" by (intro power_int_increasing) simp_all
      then show False using b m53 by simp
    qed
    with False have e: "e = 53" by simp
    then have "2 ^ 53 \<le> real m" using b by simp
    then have "real m = 2 ^ 53" using m53 by simp
    then have "real m / q = of_int (2 ^ 52)" by (simp add: q_def e)
    then show ?thesis by blast
  qed
  then obtain z :: int where z: "real m / q = of_int z" by blast
  show ?thesis unfolding fx z using z q0 by (simp add: field_simps)
qed

text \<open>Halving is exact.\<close>

lemma fl_half: "fl (x / 2) = fl x / 2"
proof (cases "x = 0")
  case True
  then show ?thesis by simp
next
  case False
  then have x: "0 < \<bar>x\<bar>" by simp
  note b = expo_bounds [OF x]
  have p: "(2::real) powi (e - 1) = 2 powi e / 2" "(2::real) powi (e - 1 + 1) = 2 powi e" for e
    by (simp_all add: power_int_diff)
  have "expo (\<bar>x\<bar> / 2) = expo \<bar>x\<bar> - 1"
  proof (rule expo_unique)
    show "0 < \<bar>x\<bar> / 2" using x by simp
    show "2 powi (expo \<bar>x\<bar> - 1) \<le> \<bar>x\<bar> / 2" unfolding p(1) using b by simp
    have "(2::real) powi (expo \<bar>x\<bar> + 1) = 2 powi expo \<bar>x\<bar> * 2"
      by (simp add: power_int_add)
    then show "\<bar>x\<bar> / 2 < 2 powi (expo \<bar>x\<bar> - 1 + 1)" unfolding p(2) using b by linarith
  qed
  then have e: "expo (\<bar>x\<bar> / 2) - 52 = expo \<bar>x\<bar> - 53" by simp
  have q: "(2::real) powi (expo \<bar>x\<bar> - 53) = 2 powi (expo \<bar>x\<bar> - 52) / 2"
    using power_int_diff [of "2::real" "expo \<bar>x\<bar> - 52" 1] by simp
  show ?thesis using False by (simp add: fl_def Let_def e q)
qed

lemma half_of_nat: "m \<le> 2 ^ 53 \<Longrightarrow> fdiv (real m) 2 = real m / 2"
  by (simp add: fdiv_def fl_half fl_of_nat)

lemma fdiv_nonneg: "0 \<le> a \<Longrightarrow> 0 < b \<Longrightarrow> 0 \<le> fdiv a b"
  by (simp add: fdiv_def fl_nonneg)

lemma fdiv_pos: "0 < a \<Longrightarrow> 0 < b \<Longrightarrow> 0 < fdiv a b"
  by (simp add: fdiv_def fl_pos)

text \<open>The rules that evaluate a rounded operation on numerals.\<close>

lemmas fl_eval = fdiv_def fmul_def fadd_def fsub_def fl_def expo.simps round_even_def Let_def
  power_int_minus

section \<open>The scene index\<close>

lemma closure_simps [simp]:
  "duration (closure_of h D as p) = D"
  "sceneDuration (closure_of h D as p) = D / real (length as)"
  "assets (closure_of h D as p) = as"
  "imgs (closure_of h D as p) = loadedImages h as"
  "width (closure_of h D as p) = (if isLandscape p then 1920 else 1080)"
  "height (closure_of h D as p) = (if isLandscape p then 1080 else 1920)"
  by (simp_all add: closure_of_def)

lemma floor_scene_bounds:
  assumes "0 < D" "as \<noteq> []" "0 \<le> t" "t < D"
  shows "0 \<le> \<lfloor>t / (D / real (length as))\<rfloor>"
    and "\<lfloor>t / (D / real (length as))\<rfloor> \<le> int (length as) - 1"
proof -
  let ?n = "real (length as)"
  have n: "0 < ?n" using assms(2) by simp
  have q: "t / (D / ?n) = t * ?n / D" by simp
  have "0 \<le> t * ?n / D" using assms n by simp
  then show "0 \<le> \<lfloor>t / (D / ?n)\<rfloor>" unfolding q by simp
  have "t * ?n < D * ?n" using assms n by simp
  then have "t * ?n / D < ?n" using assms(1) by (simp add: field_simps)
  then have "\<lfloor>t * ?n / D\<rfloor> < int (length as)" by (simp add: floor_less_iff)
  then show "\<lfloor>t / (D / ?n)\<rfloor> \<le> int (length as) - 1" unfolding q by simp
qed

lemma closure64_simps [simp]:
  "duration (closure64 h D as p) = D"
  "sceneDuration (closure64 h D as p) = fdiv D (real (length as))"
  "assets (closure64 h D as p) = as"
  "imgs (closure64 h D as p) = loadedImages h as"
  "width (closure64 h D as p) = (if isLandscape p then 1920 else 1080)"
  "height (closure64 h D as p) = (if isLandscape p then 1080 else 1920)"
  by (simp_all add: closure64_def closure_of_def)

text \<open>The index of a tick is an index of the asset list.\<close>

lemma safeIndex64_bounds:
  assumes "0 < D" "as \<noteq> []" "0 \<le> t"
  shows "0 \<le> safeIndex64 (closure64 h D as p) t"
    and "safeIndex64 (closure64 h D as p) t < int (length as)"
proof -
  have sd: "0 < fdiv D (real (length as))" using assms(1,2) by (intro fdiv_pos) simp_all
  have "0 \<le> fdiv t (fdiv D (real (length as)))" by (rule fdiv_nonneg [OF assms(3) sd])
  then have q0: "0 \<le> \<lfloor>fdiv t (fdiv D (real (length as)))\<rfloor>" by simp
  have n: "0 \<le> int (length as) - 1" using assms(2) by (cases as) simp_all
  show "0 \<le> safeIndex64 (closure64 h D as p) t"
    using q0 n by (simp add: safeIndex64_def)
  show "safeIndex64 (closure64 h D as p) t < int (length as)"
    by (simp add: safeIndex64_def)
qed

text \<open>
  Claim C1, as amended.  For a duration between \<open>2^-200\<close> and \<open>2^200\<close> seconds,
  at least one asset and an elapsed time \<open>t \<ge> 0\<close>: while \<open>t < duration\<close> the tick
  selects the scene \<open>clamp(floor(t / (duration / assetCount)), 0, assetCount - 1)\<close>
  with both divisions rounded to double precision, which lies between \<open>0\<close> and
  \<open>assetCount - 1\<close>; from \<open>t = duration\<close> on the tick selects no scene and draws
  nothing: it sets the timer that stops the recorder and returns.
\<close>

theorem scene_index_in_doubles:
  assumes "1 / 2 ^ 200 \<le> D" "D \<le> 2 ^ 200" "as \<noteq> []" "0 \<le> t"
  shows "(t < D \<longrightarrow>
            scene (drawFrame64 (closure64 h D as p) t v)
              = Some (clamp \<lfloor>fdiv t (fdiv D (real (length as)))\<rfloor> 0 (int (length as) - 1))
          \<and> 0 \<le> clamp \<lfloor>fdiv t (fdiv D (real (length as)))\<rfloor> 0 (int (length as) - 1)
          \<and> clamp \<lfloor>fdiv t (fdiv D (real (length as)))\<rfloor> 0 (int (length as) - 1)
              \<le> int (length as) - 1)
       \<and> (D \<le> t \<longrightarrow>
            scene (drawFrame64 (closure64 h D as p) t v) = None
          \<and> ops (drawFrame64 (closure64 h D as p) t v) = []
          \<and> ending (drawFrame64 (closure64 h D as p) t v) = setTimeout_stop 500)"
proof (intro conjI impI)
  define q where "q = \<lfloor>fdiv t (fdiv D (real (length as)))\<rfloor>"
  have "(0 :: real) < 1 / 2 ^ 200" by simp
  then have D: "0 < D" using assms(1) by (rule less_le_trans)
  have sd: "0 < fdiv D (real (length as))" using D assms(3) by (intro fdiv_pos) simp_all
  have "0 \<le> fdiv t (fdiv D (real (length as)))" by (rule fdiv_nonneg [OF assms(4) sd])
  then have q0: "0 \<le> q" by (simp add: q_def)
  have n: "0 \<le> int (length as) - 1" using assms(3) by (cases as) simp_all
  have cl: "clamp q 0 (int (length as) - 1) = min q (int (length as) - 1)"
    using q0 n by (simp add: clamp_def)
  show "0 \<le> clamp q 0 (int (length as) - 1)" by (simp add: clamp_def)
  show "clamp q 0 (int (length as) - 1) \<le> int (length as) - 1" using n by (simp add: clamp_def)
  {
    assume lt: "t < D"
    have si: "safeIndex64 (closure64 h D as p) t = min q (int (length as) - 1)"
      by (simp add: safeIndex64_def q_def)
    have "scene (drawFrame64 (closure64 h D as p) t v)
            = Some (safeIndex64 (closure64 h D as p) t)"
      using lt by (simp add: drawFrame64_def Let_def split: option.splits prod.splits)
    then show "scene (drawFrame64 (closure64 h D as p) t v) = Some (clamp q 0 (int (length as) - 1))"
      by (simp add: si cl)
  }
  {
    assume ge: "D \<le> t"
    then show "scene (drawFrame64 (closure64 h D as p) t v) = None"
      "ops (drawFrame64 (closure64 h D as p) t v) = []"
      "ending (drawFrame64 (closure64 h D as p) t v) = setTimeout_stop 500"
      by (simp_all add: drawFrame64_def Let_def)
  }
qed

text \<open>
  The theorem at the boundary of scenario A: thirty seconds, three images; ten seconds
  elapsed select scene 1, thirty seconds elapsed select none.
\<close>

theorem scene_index_in_doubles_witness:
  "scene (drawFrame64 (closure64 a_host 30 [a_picture, a_picture, a_picture] YOUTUBE) 10
      a_video_element) = Some 1
   \<and> scene (drawFrame64 (closure64 a_host 30 [a_picture, a_picture, a_picture] YOUTUBE) 30
      a_video_element) = None"
proof -
  have q: "\<lfloor>fdiv 10 (fdiv 30 3)\<rfloor> = 1" by (simp add: fl_eval)
  show ?thesis
    using scene_index_in_doubles
      [of 30 "[a_picture, a_picture, a_picture]" 10 a_host YOUTUBE a_video_element]
      scene_index_in_doubles
      [of 30 "[a_picture, a_picture, a_picture]" 30 a_host YOUTUBE a_video_element]
    by (simp add: clamp_def q)
qed

text \<open>
  Claim C1 as stated fails twice.  At \<open>t = duration\<close> no scene is selected.  And
  with eighteen seconds and fourteen assets, nine seconds elapsed select scene 6, where
  the formula over the exact quotients gives 7: \<open>18 / 14\<close> rounds up, so the rounded
  quotient \<open>9 / (18 / 14)\<close> falls just below 7.
\<close>

theorem scene_index_counterexample:
  "scene (drawFrame64 (closure64 a_host 30 [a_picture, a_picture, a_picture] YOUTUBE) 30
      a_video_element) = None
   \<and> scene (drawFrame64 (closure64 a_host 18 (replicate 14 a_picture) YOUTUBE) 9
      a_video_element) = Some 6
   \<and> clamp \<lfloor>9 / (18 / 14 :: real)\<rfloor> 0 (14 - 1) = 7"
proof -
  have q: "\<lfloor>fdiv 9 (fdiv 18 14)\<rfloor> = 6" by (simp add: fl_eval)
  have "scene (drawFrame64 (closure64 a_host 18 (replicate 14 a_picture) YOUTUBE) 9
      a_video_element) = Some 6"
    by (simp add: drawFrame64_def safeIndex64_def Let_def q split: option.splits prod.splits)
  moreover have "clamp \<lfloor>9 / (18 / 14 :: real)\<rfloor> 0 (14 - 1) = 7" by (simp add: clamp_def)
  moreover have "scene (drawFrame64 (closure64 a_host 30 [a_picture, a_picture, a_picture] YOUTUBE) 30
      a_video_element) = None"
    by (simp add: drawFrame64_def Let_def)
  ultimately show ?thesis by blast
qed

section \<open>The cover fit\<close>

text \<open>
  Scaling a source dimension by the rounded ratio of the surface to it gives the surface
  dimension back within two roundings.
\<close>

lemma scaled_lower:
  assumes "0 < S" "0 < s" "fdiv S s \<le> scale"
  shows "S * (1 - 2 * roundoff) \<le> fmul s scale"
proof -
  define u :: real where "u = roundoff"
  have u: "0 \<le> u" "u \<le> 1" using roundoff_bounds by (simp_all add: u_def)
  have q: "0 \<le> S / s" using assms by simp
  have a: "S / s * (1 - u) \<le> fdiv S s"
    using fl_bounds(1) [OF q] by (simp add: fdiv_def u_def)
  have "S * (1 - u) = s * (S / s * (1 - u))" using assms(2) by simp
  also have "\<dots> \<le> s * scale" using a assms(2,3) by (intro mult_left_mono) linarith+
  finally have p: "S * (1 - u) \<le> s * scale" .
  have "0 \<le> S * (1 - u)" using assms(1) u by simp
  then have p0: "0 \<le> s * scale" using p by linarith
  have "S * (1 - 2 * u) \<le> S * (1 - u) * (1 - u)"
  proof -
    have "S * (1 - u) * (1 - u) = S * (1 - 2 * u) + S * (u * u)" by (simp add: algebra_simps)
    moreover have "0 \<le> S * (u * u)" using assms(1) by simp
    ultimately show ?thesis by linarith
  qed
  also have "\<dots> \<le> (s * scale) * (1 - u)" using p u by (intro mult_right_mono) simp_all
  also have "\<dots> \<le> fmul s scale"
    using fl_bounds(1) [OF p0] by (simp add: fmul_def u_def)
  finally show ?thesis by (simp add: u_def)
qed

lemma scaled_near:
  assumes "0 < S" "0 < s"
  shows "\<bar>fmul s (fdiv S s) - S\<bar> \<le> S * (4 * roundoff)"
proof -
  define u :: real where "u = roundoff"
  define a where "a = fdiv S s"
  have u: "0 \<le> u" "u \<le> 1" using roundoff_bounds by (simp_all add: u_def)
  have q: "0 \<le> S / s" using assms by simp
  have a: "S / s * (1 - u) \<le> a" "a \<le> S / s * (1 + u)"
    using fl_bounds [OF q] by (simp_all add: a_def fdiv_def u_def)
  have lo: "S * (1 - u) \<le> s * a"
  proof -
    have "S * (1 - u) = s * (S / s * (1 - u))" using assms(2) by simp
    also have "\<dots> \<le> s * a" using a(1) assms(2) by (intro mult_left_mono) linarith+
    finally show ?thesis .
  qed
  have hi: "s * a \<le> S * (1 + u)"
  proof -
    have "s * a \<le> s * (S / s * (1 + u))" using a(2) assms(2) by (intro mult_left_mono) linarith+
    also have "\<dots> = S * (1 + u)" using assms(2) by simp
    finally show ?thesis .
  qed
  have "0 \<le> S * (1 - u)" using assms(1) u by simp
  then have p0: "0 \<le> s * a" using lo by linarith
  have f: "(s * a) * (1 - u) \<le> fmul s a" "fmul s a \<le> (s * a) * (1 + u)"
    using fl_bounds [OF p0] by (simp_all add: fmul_def u_def)
  have l2: "S * (1 - u) * (1 - u) \<le> (s * a) * (1 - u)"
    using lo u by (intro mult_right_mono) simp_all
  have h2: "(s * a) * (1 + u) \<le> S * (1 + u) * (1 + u)"
    using hi u by (intro mult_right_mono) simp_all
  have e1: "S * (1 - u) * (1 - u) = S - 2 * (S * u) + S * (u * u)" by (simp add: algebra_simps)
  have e2: "S * (1 + u) * (1 + u) = S + 2 * (S * u) + S * (u * u)" by (simp add: algebra_simps)
  have su: "0 \<le> S * u" using assms(1) u by simp
  have "(S * u) * u \<le> (S * u) * 1" using su u by (intro mult_left_mono) simp_all
  then have uu: "0 \<le> S * (u * u)" "S * (u * u) \<le> S * u"
    using assms(1) by (simp_all add: mult.assoc)
  have "fmul s a - S \<le> 4 * (S * u)" "S - fmul s a \<le> 4 * (S * u)"
    using f l2 h2 e1 e2 uu su by linarith+
  then have "\<bar>fmul s a - S\<bar> \<le> 4 * (S * u)" by linarith
  then show ?thesis unfolding a_def u_def by (simp add: algebra_simps)
qed

text \<open>The left edge that centres a drawn width, as the code computes it.\<close>

lemma centred:
  assumes "W \<le> 2 ^ 53" "w \<le> 2 ^ 53"
  shows "\<bar>(fsub (fdiv (real W) 2) (fmul (fdiv (real w) 2) scale) + fmul (real w) scale / 2)
            - real W / 2\<bar>
         \<le> \<bar>real W - fmul (real w) scale\<bar> * roundoff"
proof -
  define dw where "dw = fmul (real w) scale"
  have a: "fmul (fdiv (real w) 2) scale = dw / 2"
    using fl_half [of "real w * scale"] by (simp add: half_of_nat [OF assms(2)] fmul_def dw_def)
  have x: "fsub (fdiv (real W) 2) (fmul (fdiv (real w) 2) scale) = fl (real W - dw) / 2"
    using fl_half [of "real W - dw"]
    by (simp add: a half_of_nat [OF assms(1)] fsub_def diff_divide_distrib)
  have "(fl (real W - dw) / 2 + dw / 2) - real W / 2 = (fl (real W - dw) - (real W - dw)) / 2"
    by (simp add: field_simps)
  then have "\<bar>(fl (real W - dw) / 2 + dw / 2) - real W / 2\<bar>
               = \<bar>fl (real W - dw) - (real W - dw)\<bar> / 2"
    by (simp only: abs_divide abs_numeral)
  also have "\<dots> \<le> \<bar>real W - dw\<bar> * roundoff / 2"
    using fl_error_roundoff [of "real W - dw"] by (simp add: divide_right_mono)
  also have "\<dots> \<le> \<bar>real W - dw\<bar> * roundoff"
    using roundoff_bounds by (simp add: mult_nonneg_nonneg)
  finally show ?thesis unfolding x dw_def .
qed

text \<open>What the code computes for a source of positive size is a cover fit.\<close>

lemma cover_fitted_computed:
  assumes "0 < width c" "0 < height c" "width c \<le> 2 ^ 53" "height c \<le> 2 ^ 53"
    and "natural_size src = (w, h)" "0 < w" "0 < h" "w \<le> 2 ^ 53" "h \<le> 2 ^ 53"
    and "scale = max (fdiv (real (width c)) (real w)) (fdiv (real (height c)) (real h))"
  shows "cover_fitted c src
           (drawImage src
              (fsub (fdiv (real (width c)) 2) (fmul (fdiv (real w) 2) scale))
              (fsub (fdiv (real (height c)) 2) (fmul (fdiv (real h) 2) scale))
              (fmul (real w) scale) (fmul (real h) scale))"
proof -
  let ?W = "real (width c)" and ?H = "real (height c)"
  have p: "0 < ?W" "0 < ?H" "0 < real w" "0 < real h" using assms by simp_all
  have lw: "?W * (1 - 2 * roundoff) \<le> fmul (real w) scale"
    by (rule scaled_lower [OF p(1,3)]) (simp add: assms(10))
  have lh: "?H * (1 - 2 * roundoff) \<le> fmul (real h) scale"
    by (rule scaled_lower [OF p(2,4)]) (simp add: assms(10))
  have "scale = fdiv ?W (real w) \<or> scale = fdiv ?H (real h)"
    unfolding assms(10) by (simp add: max_def)
  then have near: "\<bar>fmul (real w) scale - ?W\<bar> \<le> ?W * (4 * roundoff)
      \<or> \<bar>fmul (real h) scale - ?H\<bar> \<le> ?H * (4 * roundoff)"
    using scaled_near [OF p(1,3)] scaled_near [OF p(2,4)] by auto
  note cw = centred [OF assms(3,8), of scale]
  note ch = centred [OF assms(4,9), of scale]
  show ?thesis
    unfolding cover_fitted_def using assms(5) lw lh near cw ch
    by (simp add: Let_def assms(10) [symmetric])
qed

text \<open>
  Claim C2, as amended.  On a surface of positive width and height, at a tick before the
  duration whose scene index is an index of the asset list: when the active asset is an
  image that was preloaded with a positive natural size, and when it is a video whose
  element is ready and reports a positive size, the tick clears the surface and then
  issues exactly one \<open>drawImage\<close>, of that source, scaled by
  \<open>max(surfaceW / sourceW, surfaceH / sourceH)\<close> and centred, every operation
  rounded to double precision.  The scaled size covers the surface on both axes up to a
  relative error of \<open>2^-52\<close> and meets it on at least one axis up to a relative error
  of \<open>2^-51\<close>.  All sizes are whole numbers up to \<open>2^53\<close>.
\<close>

theorem cover_fit_in_doubles:
  assumes "0 < width c" "0 < height c" "width c \<le> 2 ^ 53" "height c \<le> 2 ^ 53"
    and "t < duration c"
    and "0 \<le> safeIndex64 c t" "safeIndex64 c t < int (length (assets c))"
  shows "(atype (assets c ! nat (safeIndex64 c t)) = image'
          \<and> nat (safeIndex64 c t) < length (imgs c)
          \<and> imgs c ! nat (safeIndex64 c t) = Some (w, h)
          \<and> 0 < w \<and> 0 < h \<and> w \<le> 2 ^ 53 \<and> h \<le> 2 ^ 53
          \<longrightarrow> (\<exists>op. ops (drawFrame64 c t v)
                        = [fillRect ''#000'' 0 0 (real (width c)) (real (height c)), op]
                   \<and> cover_fitted c (Picture w h) op))
       \<and> (atype (assets c ! nat (safeIndex64 c t)) = video' \<and> 2 \<le> readyState v
          \<and> 0 < videoWidth v \<and> 0 < videoHeight v
          \<and> videoWidth v \<le> 2 ^ 53 \<and> videoHeight v \<le> 2 ^ 53
          \<longrightarrow> (\<exists>op. ops (drawFrame64 c t v)
                        = [fillRect ''#000'' 0 0 (real (width c)) (real (height c)), op]
                   \<and> cover_fitted c (Clip (videoWidth v) (videoHeight v)) op))"
proof (intro conjI impI)
  define i where "i = safeIndex64 c t"
  have i: "\<not> (i < 0 \<or> int (length (assets c)) \<le> i)" using assms(6,7) by (simp add: i_def)
  {
    assume a: "atype (assets c ! nat (safeIndex64 c t)) = image'
          \<and> nat (safeIndex64 c t) < length (imgs c)
          \<and> imgs c ! nat (safeIndex64 c t) = Some (w, h)
          \<and> 0 < w \<and> 0 < h \<and> w \<le> 2 ^ 53 \<and> h \<le> 2 ^ 53"
    define scale where
      "scale = max (fdiv (real (width c)) (real w)) (fdiv (real (height c)) (real h))"
    have o: "ops (drawFrame64 c t v)
          = [fillRect ''#000'' 0 0 (real (width c)) (real (height c)),
             drawImage (Picture w h)
              (fsub (fdiv (real (width c)) 2) (fmul (fdiv (real w) 2) scale))
              (fsub (fdiv (real (height c)) 2) (fmul (fdiv (real h) 2) scale))
              (fmul (real w) scale) (fmul (real h) scale)]"
      using a assms(5) i unfolding drawFrame64_def i_def [symmetric] scale_def
      by (simp add: Let_def)
    have "cover_fitted c (Picture w h)
            (drawImage (Picture w h)
              (fsub (fdiv (real (width c)) 2) (fmul (fdiv (real w) 2) scale))
              (fsub (fdiv (real (height c)) 2) (fmul (fdiv (real h) 2) scale))
              (fmul (real w) scale) (fmul (real h) scale))"
      using a by (intro cover_fitted_computed [OF assms(1-4)] scale_def) simp_all
    with o show "\<exists>op. ops (drawFrame64 c t v)
                        = [fillRect ''#000'' 0 0 (real (width c)) (real (height c)), op]
                   \<and> cover_fitted c (Picture w h) op" by blast
  }
  {
    assume a: "atype (assets c ! nat (safeIndex64 c t)) = video' \<and> 2 \<le> readyState v
          \<and> 0 < videoWidth v \<and> 0 < videoHeight v
          \<and> videoWidth v \<le> 2 ^ 53 \<and> videoHeight v \<le> 2 ^ 53"
    define vw where "vw = videoWidth v"
    define vh where "vh = videoHeight v"
    define scale where
      "scale = max (fdiv (real (width c)) (real vw)) (fdiv (real (height c)) (real vh))"
    have o: "ops (drawFrame64 c t v)
          = [fillRect ''#000'' 0 0 (real (width c)) (real (height c)),
             drawImage (Clip vw vh)
              (fsub (fdiv (real (width c)) 2) (fmul (fdiv (real vw) 2) scale))
              (fsub (fdiv (real (height c)) 2) (fmul (fdiv (real vh) 2) scale))
              (fmul (real vw) scale) (fmul (real vh) scale)]"
      using a assms(5) i unfolding drawFrame64_def i_def [symmetric] scale_def vw_def vh_def
      by (simp add: Let_def)
    have "cover_fitted c (Clip vw vh)
            (drawImage (Clip vw vh)
              (fsub (fdiv (real (width c)) 2) (fmul (fdiv (real vw) 2) scale))
              (fsub (fdiv (real (height c)) 2) (fmul (fdiv (real vh) 2) scale))
              (fmul (real vw) scale) (fmul (real vh) scale))"
      using a by (intro cover_fitted_computed [OF assms(1-4)] scale_def) (simp_all add: vw_def vh_def)
    with o show "\<exists>op. ops (drawFrame64 c t v)
                        = [fillRect ''#000'' 0 0 (real (width c)) (real (height c)), op]
                   \<and> cover_fitted c (Clip (videoWidth v) (videoHeight v)) op"
      unfolding vw_def vh_def by blast
  }
qed

text \<open>Two ticks of a thirty-second render of an image and a clip, evaluated.\<close>

lemma safeIndex64_of_two:
  "safeIndex64 (closure64 a_host 30 [a_picture, a_clip] p) 20 = 1"
  "safeIndex64 (closure64 a_host 30 [a_picture, a_clip] p) 3 = 0"
  by (simp_all add: safeIndex64_def fl_eval)

lemma cover_values:
  "fdiv 1080 1000 = 607985949695017 / 562949953421312"
  "fdiv 1920 563 = 7679317304219673 / 2251799813685248"
  "fdiv 1000 2 = 500"
  "fdiv 563 2 = 563 / 2"
  "fdiv 1080 2 = 540"
  "fdiv 1920 2 = 960"
  "fmul 500 (7679317304219673 / 2251799813685248) = 937416663112753 / 549755813888"
  "fmul 1000 (7679317304219673 / 2251799813685248) = 937416663112753 / 274877906944"
  "fmul (563 / 2) (7679317304219673 / 2251799813685248) = 8444249301319679 / 8796093022208"
  "fmul 563 (7679317304219673 / 2251799813685248) = 8444249301319679 / 4398046511104"
  "fsub 540 (937416663112753 / 549755813888) = - (640548523613233 / 549755813888)"
  "fsub 960 (8444249301319679 / 8796093022208) = 1 / 8796093022208"
  "fdiv 1080 800 = 3039929748475085 / 2251799813685248"
  "fdiv 1920 600 = 3602879701896397 / 1125899906842624"
  "fdiv 800 2 = 400"
  "fdiv 600 2 = 300"
  "fmul 400 (3602879701896397 / 1125899906842624) = 1280"
  "fmul 800 (3602879701896397 / 1125899906842624) = 2560"
  "fmul 300 (3602879701896397 / 1125899906842624) = 960"
  "fmul 600 (3602879701896397 / 1125899906842624) = 1920"
  "fsub 540 1280 = - 740"
  "fsub 960 960 = 0"
  "fdiv 1920 1280 = 3 / 2"
  "fdiv 1080 720 = 3 / 2"
  "fdiv 1280 2 = 640"
  "fdiv 720 2 = 360"
  "fmul 640 (3 / 2) = 960"
  "fmul 1280 (3 / 2) = 1920"
  "fmul 360 (3 / 2) = 540"
  "fmul 720 (3 / 2) = 1080"
  "fsub 540 540 = 0"
  by (simp_all add: fl_eval)

lemma ops_small_clip:
  "ops (drawFrame64 (closure64 a_host 30 [a_picture, a_clip] TIKTOK) 20 a_small_video_element)
       = [fillRect ''#000'' 0 0 1080 1920,
          drawImage (Clip 1000 563) (- (640548523613233 / 549755813888))
            (1 / 8796093022208) (937416663112753 / 274877906944)
            (8444249301319679 / 4398046511104)]"
  unfolding drawFrame64_def safeIndex64_of_two
  by (simp add: Let_def isLandscape_def loadedImages_def
      a_host_def a_picture_def a_clip_def a_small_video_element_def a_video_element_def
      cover_values)

lemma ops_picture:
  "ops (drawFrame64 (closure64 a_host 30 [a_picture, a_clip] TIKTOK) 3 a_video_element)
       = [fillRect ''#000'' 0 0 1080 1920, drawImage (Picture 800 600) (- 740) 0 2560 1920]"
  unfolding drawFrame64_def safeIndex64_of_two
  by (simp add: Let_def isLandscape_def loadedImages_def
      a_host_def a_picture_def a_clip_def a_video_element_def cover_values)

lemma ops_landscape_clip:
  "ops (drawFrame64 (closure64 a_host 30 [a_picture, a_clip] YOUTUBE) 20 a_video_element)
       = [fillRect ''#000'' 0 0 1920 1080, drawImage (Clip 1280 720) 0 0 1920 1080]"
  unfolding drawFrame64_def safeIndex64_of_two
  by (simp add: Let_def isLandscape_def loadedImages_def
      a_host_def a_picture_def a_clip_def a_video_element_def cover_values)

text \<open>
  The theorem on a portrait surface (1080 by 1920) with an 800 by 600 image and with a
  1000 by 563 video frame, and on a landscape surface (1920 by 1080) with a 1280 by 720
  video frame.
\<close>

theorem cover_fit_in_doubles_witness:
  "ops (drawFrame64 (closure64 a_host 30 [a_picture, a_clip] TIKTOK) 3 a_video_element)
       = [fillRect ''#000'' 0 0 1080 1920, drawImage (Picture 800 600) (- 740) 0 2560 1920]
   \<and> cover_fitted (closure64 a_host 30 [a_picture, a_clip] TIKTOK) (Picture 800 600)
        (drawImage (Picture 800 600) (- 740) 0 2560 1920)
   \<and> ops (drawFrame64 (closure64 a_host 30 [a_picture, a_clip] YOUTUBE) 20 a_video_element)
       = [fillRect ''#000'' 0 0 1920 1080, drawImage (Clip 1280 720) 0 0 1920 1080]
   \<and> cover_fitted (closure64 a_host 30 [a_picture, a_clip] YOUTUBE) (Clip 1280 720)
        (drawImage (Clip 1280 720) 0 0 1920 1080)
   \<and> cover_fitted (closure64 a_host 30 [a_picture, a_clip] TIKTOK) (Clip 1000 563)
        (drawImage (Clip 1000 563) (- (640548523613233 / 549755813888))
            (1 / 8796093022208) (937416663112753 / 274877906944)
            (8444249301319679 / 4398046511104))"
proof -
  let ?c = "closure64 a_host 30 [a_picture, a_clip] TIKTOK"
  let ?d = "closure64 a_host 30 [a_picture, a_clip] YOUTUBE"
  have c: "loadedImages a_host [a_picture, a_clip] = [Some (800, 600), None]"
    "\<not> isLandscape TIKTOK" "isLandscape YOUTUBE"
    by (simp_all add: isLandscape_def loadedImages_def a_host_def a_picture_def a_clip_def)
  have v: "readyState a_small_video_element = 4" "videoWidth a_small_video_element = 1000"
    "videoHeight a_small_video_element = 563" "readyState a_video_element = 4"
    "videoWidth a_video_element = 1280" "videoHeight a_video_element = 720"
    "atype a_picture = image'" "atype a_clip = video'"
    by (simp_all add: a_small_video_element_def a_video_element_def a_picture_def a_clip_def)
  have "\<exists>op. ops (drawFrame64 ?c 3 a_video_element)
               = [fillRect ''#000'' 0 0 (real (width ?c)) (real (height ?c)), op]
             \<and> cover_fitted ?c (Picture 800 600) op"
    using cover_fit_in_doubles [of ?c 3 800 600 a_video_element, THEN conjunct1]
    by (simp add: c v safeIndex64_of_two)
  then have 1: "cover_fitted ?c (Picture 800 600)
        (drawImage (Picture 800 600) (- 740) 0 2560 1920)"
    unfolding ops_picture by auto
  have "\<exists>op. ops (drawFrame64 ?d 20 a_video_element)
               = [fillRect ''#000'' 0 0 (real (width ?d)) (real (height ?d)), op]
             \<and> cover_fitted ?d (Clip (videoWidth a_video_element)
                                      (videoHeight a_video_element)) op"
    using cover_fit_in_doubles [of ?d 20 0 0 a_video_element, THEN conjunct2]
    by (simp add: c v safeIndex64_of_two)
  then have 2: "cover_fitted ?d (Clip 1280 720) (drawImage (Clip 1280 720) 0 0 1920 1080)"
    unfolding ops_landscape_clip v by auto
  have "\<exists>op. ops (drawFrame64 ?c 20 a_small_video_element)
               = [fillRect ''#000'' 0 0 (real (width ?c)) (real (height ?c)), op]
             \<and> cover_fitted ?c (Clip (videoWidth a_small_video_element)
                                      (videoHeight a_small_video_element)) op"
    using cover_fit_in_doubles [of ?c 20 0 0 a_small_video_element, THEN conjunct2]
    by (simp add: c v safeIndex64_of_two)
  then have 3: "cover_fitted ?c (Clip 1000 563)
        (drawImage (Clip 1000 563) (- (640548523613233 / 549755813888))
            (1 / 8796093022208) (937416663112753 / 274877906944)
            (8444249301319679 / 4398046511104))"
    unfolding ops_small_clip v by auto
  show ?thesis using 1 2 3 ops_picture ops_landscape_clip by simp
qed

text \<open>
  Claim C2 as stated fails for a 1000 by 563 video frame on the portrait surface: the
  scale is the rounded \<open>1920 / 563\<close>, and \<open>563\<close> times it rounds to
  \<open>1919.9999999999998\<close>, below the height of the surface, while the scaled width is
  not the width of the surface: the surface is not covered, and no axis is met exactly.
\<close>

theorem cover_fit_counterexample:
  "ops (drawFrame64 (closure64 a_host 30 [a_picture, a_clip] TIKTOK) 20 a_small_video_element)
       = [fillRect ''#000'' 0 0 1080 1920,
          drawImage (Clip 1000 563) (- (640548523613233 / 549755813888))
            (1 / 8796093022208) (937416663112753 / 274877906944)
            (8444249301319679 / 4398046511104)]
   \<and> (8444249301319679 / 4398046511104 :: real) < 1920
   \<and> (937416663112753 / 274877906944 :: real) \<noteq> 1080"
  using ops_small_clip by simp

section \<open>The target playback position and the seek tolerance\<close>

text \<open>
  On a dividend that is not negative and a positive divisor, \<open>%\<close> is the mathematical
  remainder.
\<close>

lemma js_rem_spec_mod:
  assumes "0 \<le> a" "0 < b"
  shows "js_rem a b = Some (spec_mod a b)" "0 \<le> spec_mod a b" "spec_mod a b < b"
proof -
  have "0 \<le> a / b" using assms by simp
  then show "js_rem a b = Some (spec_mod a b)"
    using assms(2) by (simp add: js_rem_def spec_mod_def trunc_def)
  have "b * of_int \<lfloor>a / b\<rfloor> \<le> b * (a / b)"
    using assms(2) by (intro mult_left_mono) simp_all
  then show "0 \<le> spec_mod a b" using assms(2) by (simp add: spec_mod_def)
  have "b * (a / b) < b * (of_int \<lfloor>a / b\<rfloor> + 1)"
    using assms(2) by (intro mult_strict_left_mono) linarith+
  then show "spec_mod a b < b" using assms(2) by (simp add: spec_mod_def algebra_simps)
qed

lemma js_rem_Some: "b \<noteq> 0 \<Longrightarrow> \<exists>r. js_rem a b = Some r"
  by (simp add: js_rem_def)

text \<open>What a recorder tick computes when a video asset is active and the element is ready.\<close>

lemma recorder_tick_video:
  assumes "0 < D" "as \<noteq> []" "0 \<le> t" "t < D"
    and "a = as ! nat \<lfloor>t / (D / real (length as))\<rfloor>"
    and "atype a = video'" "2 \<le> readyState v"
  shows "targetTime (drawFrame (closure_of h D as p) t v)
           = (case js_rem t (D / real (length as)) of
                None \<Rightarrow> None
              | Some s \<Rightarrow> map_option (\<lambda>r. or_number (videoStart a) 0 + r)
                  (js_rem s (or_number (videoEnd a) (or_number (videoStart a) 0 + 5)
                              - or_number (videoStart a) 0)))"
    and "seek (drawFrame (closure_of h D as p) t v)
           = (case targetTime (drawFrame (closure_of h D as p) t v) of
                None \<Rightarrow> None
              | Some T \<Rightarrow> if 0.2 < \<bar>currentTime v - T\<bar> then Some T else None)"
proof -
  note b = floor_scene_bounds [OF assms(1-4)]
  have si: "safeIndex (closure_of h D as p) t = \<lfloor>t / (D / real (length as))\<rfloor>"
    using b by (simp add: safeIndex_def)
  have rng: "\<not> (\<lfloor>t / (D / real (length as))\<rfloor> < 0
               \<or> int (length as) \<le> \<lfloor>t / (D / real (length as))\<rfloor>)"
    using b by simp
  show "targetTime (drawFrame (closure_of h D as p) t v)
           = (case js_rem t (D / real (length as)) of
                None \<Rightarrow> None
              | Some s \<Rightarrow> map_option (\<lambda>r. or_number (videoStart a) 0 + r)
                  (js_rem s (or_number (videoEnd a) (or_number (videoStart a) 0 + 5)
                              - or_number (videoStart a) 0)))"
    using assms(4,6,7) rng unfolding drawFrame_def si assms(5)
    by (simp add: Let_def split: option.splits)
  show "seek (drawFrame (closure_of h D as p) t v)
           = (case targetTime (drawFrame (closure_of h D as p) t v) of
                None \<Rightarrow> None
              | Some T \<Rightarrow> if 0.2 < \<bar>currentTime v - T\<bar> then Some T else None)"
    using assms(4,6,7) rng unfolding drawFrame_def si assms(5)
    by (simp add: Let_def split: option.splits)
qed

lemma or_number_end:
  "e \<noteq> Some 0 \<Longrightarrow> or_number e d = (case e of None \<Rightarrow> d | Some x \<Rightarrow> x)"
  by (simp add: or_number_def split: option.splits)

text \<open>The recorder computes the specification's target time.\<close>

lemma recorder_targetTime_spec:
  assumes "0 < D" "as \<noteq> []" "0 \<le> t" "t < D"
    and "a = as ! nat \<lfloor>t / (D / real (length as))\<rfloor>"
    and "atype a = video'" "2 \<le> readyState v"
    and "videoEnd a \<noteq> Some 0"
    and "or_number (videoStart a) 0 < (case videoEnd a of None \<Rightarrow> or_number (videoStart a) 0 + 5 | Some e \<Rightarrow> e)"
  shows "targetTime (drawFrame (closure_of h D as p) t v)
           = Some (spec_targetTime (or_number (videoStart a) 0) (videoEnd a) t
                     (D / real (length as)))"
proof -
  let ?sd = "D / real (length as)"
  let ?st = "or_number (videoStart a) 0"
  let ?en = "case videoEnd a of None \<Rightarrow> ?st + 5 | Some e \<Rightarrow> e"
  have sd: "0 < ?sd" using assms(1,2) by simp
  note r1 = js_rem_spec_mod [OF assms(3) sd]
  have len: "0 < ?en - ?st" using assms(9) by simp
  note r2 = js_rem_spec_mod [OF r1(2) len]
  show ?thesis
    unfolding recorder_tick_video(1) [OF assms(1-7)] or_number_end [OF assms(8)] r1(1)
    by (simp add: r2(1) spec_targetTime_def)
qed

lemma js_rem_int_nonneg:
  assumes "0 \<le> i" "0 < n"
  shows "js_rem_int i n = i mod n"
proof (cases "i = 0")
  case True
  then show ?thesis by (simp add: js_rem_int_def)
next
  case False
  with assms have "sgn i = 1" "\<bar>i\<bar> = i" "\<bar>n\<bar> = n" by simp_all
  then show ?thesis by (simp add: js_rem_int_def)
qed

text \<open>
  What a recorder tick computes in double precision when a video asset is active: with
  the element ready, and with the element not ready.
\<close>

lemma recorder_tick_video64:
  assumes "0 < D" "as \<noteq> []" "0 \<le> t" "t < D"
    and "a = as ! nat (safeIndex64 (closure64 h D as p) t)"
    and "atype a = video'" "2 \<le> readyState v"
  shows "targetTime (drawFrame64 (closure64 h D as p) t v)
           = (case js_rem t (fdiv D (real (length as))) of
                None \<Rightarrow> None
              | Some s \<Rightarrow> map_option (\<lambda>r. fadd (or_number (videoStart a) 0) r)
                  (js_rem s (fsub (or_number (videoEnd a) (fadd (or_number (videoStart a) 0) 5))
                              (or_number (videoStart a) 0))))"
    and "seek (drawFrame64 (closure64 h D as p) t v)
           = (case targetTime (drawFrame64 (closure64 h D as p) t v) of
                None \<Rightarrow> None
              | Some T \<Rightarrow> if fl 0.2 < \<bar>fsub (currentTime v) T\<bar> then Some T else None)"
proof -
  define i where "i = safeIndex64 (closure64 h D as p) t"
  note b = safeIndex64_bounds [OF assms(1-3), of h p, folded i_def]
  have rng: "\<not> (i < 0 \<or> int (length as) \<le> i)" using b by simp
  show "targetTime (drawFrame64 (closure64 h D as p) t v)
           = (case js_rem t (fdiv D (real (length as))) of
                None \<Rightarrow> None
              | Some s \<Rightarrow> map_option (\<lambda>r. fadd (or_number (videoStart a) 0) r)
                  (js_rem s (fsub (or_number (videoEnd a) (fadd (or_number (videoStart a) 0) 5))
                              (or_number (videoStart a) 0))))"
    using assms(4,6,7) rng unfolding drawFrame64_def i_def [symmetric] assms(5)
    by (simp add: Let_def split: option.splits)
  show "seek (drawFrame64 (closure64 h D as p) t v)
           = (case targetTime (drawFrame64 (closure64 h D as p) t v) of
                None \<Rightarrow> None
              | Some T \<Rightarrow> if fl 0.2 < \<bar>fsub (currentTime v) T\<bar> then Some T else None)"
    using assms(4,6,7) rng unfolding drawFrame64_def i_def [symmetric] assms(5)
    by (simp add: Let_def split: option.splits)
qed

lemma recorder_tick_not_ready64:
  assumes "0 < D" "as \<noteq> []" "0 \<le> t" "t < D"
    and "atype (as ! nat (safeIndex64 (closure64 h D as p) t)) = video'" "readyState v < 2"
  shows "targetTime (drawFrame64 (closure64 h D as p) t v) = None"
    and "seek (drawFrame64 (closure64 h D as p) t v) = None"
    and "ops (drawFrame64 (closure64 h D as p) t v)
           = [fillRect ''#000'' 0 0 (real (width (closure64 h D as p)))
                (real (height (closure64 h D as p)))]"
proof -
  define i where "i = safeIndex64 (closure64 h D as p) t"
  note b = safeIndex64_bounds [OF assms(1-3), of h p, folded i_def]
  have rng: "\<not> (i < 0 \<or> int (length as) \<le> i)" using b by simp
  show "targetTime (drawFrame64 (closure64 h D as p) t v) = None"
    using assms(4,5,6) rng unfolding drawFrame64_def i_def [symmetric]
    by (simp add: Let_def split: option.splits)
  show "seek (drawFrame64 (closure64 h D as p) t v) = None"
    using assms(4,5,6) rng unfolding drawFrame64_def i_def [symmetric]
    by (simp add: Let_def split: option.splits)
  show "ops (drawFrame64 (closure64 h D as p) t v)
           = [fillRect ''#000'' 0 0 (real (width (closure64 h D as p)))
                (real (height (closure64 h D as p)))]"
    using assms(4,5,6) rng unfolding drawFrame64_def i_def [symmetric]
    by (simp add: Let_def split: option.splits)
qed

text \<open>What a preview tick computes when a video asset is active and the element is mounted.\<close>

lemma preview_tick_video64:
  assumes "0 < D" "as \<noteq> []" "0 \<le> t"
    and "a = as ! nat (\<lfloor>fdiv t (fdiv D (real (length as)))\<rfloor> mod int (length as))"
    and "atype a = video'"
  shows "\<exists>r. updateSlideshow64 True (Some D) as t (Some v) playing = Some r
       \<and> index r = \<lfloor>fdiv t (fdiv D (real (length as)))\<rfloor> mod int (length as)
       \<and> preview_targetTime r
           = (case js_rem t (fdiv D (real (length as))) of
                None \<Rightarrow> None
              | Some s \<Rightarrow> map_option (\<lambda>r. fadd (or_number (videoStart a) 0) r)
                  (js_rem s (fsub (or_number (videoEnd a) 10) (or_number (videoStart a) 0))))
       \<and> preview_seek r
           = (case preview_targetTime r of
                None \<Rightarrow> None
              | Some T \<Rightarrow> if fl 0.5 < \<bar>fsub (currentTime v) T\<bar> then Some T else None)"
proof -
  let ?sd = "fdiv D (real (length as))"
  let ?n = "int (length as)"
  have n: "0 < ?n" using assms(2) by simp
  have sdp: "0 < ?sd" using assms(1,2) by (intro fdiv_pos) simp_all
  have "0 \<le> fdiv t ?sd" by (rule fdiv_nonneg [OF assms(3) sdp])
  then have f: "0 \<le> \<lfloor>fdiv t ?sd\<rfloor>" by simp
  have i: "js_rem_int \<lfloor>fdiv t ?sd\<rfloor> ?n = \<lfloor>fdiv t ?sd\<rfloor> mod ?n"
    by (rule js_rem_int_nonneg [OF f n])
  have r: "0 \<le> \<lfloor>fdiv t ?sd\<rfloor> mod ?n" "\<lfloor>fdiv t ?sd\<rfloor> mod ?n < ?n"
    using n by simp_all
  show ?thesis
    using assms(2) assms(5) [unfolded assms(4)] r
    unfolding updateSlideshow64_def assms(4)
    by (simp add: Let_def i split: option.splits)
qed

text \<open>
  Claim C4, as amended.  For a duration between \<open>2^-200\<close> and \<open>2^200\<close> seconds, at
  least one asset and an elapsed time between \<open>0\<close> and \<open>2^200\<close>, on a tick with a
  video asset active, the asset being the one the rounded scene index selects.  In the
  recorder, before the duration, when the video element has \<open>readyState \<ge> 2\<close> and
  the clip length is not zero: the target time is the clip start plus the remainder, by
  the clip length, of the remainder of the elapsed time by the scene duration, and the
  tick assigns it to the element's position exactly when the rounded difference of the
  position and the target exceeds, in absolute value, the double nearest to \<open>0.2\<close>;
  otherwise it issues no seek.  In the recorder, while the video element has
  \<open>readyState < 2\<close>: the tick computes no target and issues no seek, whatever the
  position.  In the preview, when the preview element is mounted and the clip length is
  not zero: as in the ready recorder, with the preview's clip length and the double
  \<open>0.5\<close>.
\<close>

theorem seek_tolerance_in_doubles:
  assumes "1 / 2 ^ 200 \<le> D" "D \<le> 2 ^ 200" "as \<noteq> []" "0 \<le> t" "t \<le> 2 ^ 200"
  shows "(\<forall>a. a = as ! nat (safeIndex64 (closure64 h D as p) t) \<and> t < D \<and> atype a = video'
            \<longrightarrow>
            (2 \<le> readyState v
             \<and> fsub (or_number (videoEnd a) (fadd (or_number (videoStart a) 0) 5))
                    (or_number (videoStart a) 0) \<noteq> 0
             \<longrightarrow> (\<exists>s r T. js_rem t (fdiv D (real (length as))) = Some s
                    \<and> js_rem s (fsub (or_number (videoEnd a) (fadd (or_number (videoStart a) 0) 5))
                                  (or_number (videoStart a) 0)) = Some r
                    \<and> T = fadd (or_number (videoStart a) 0) r
                    \<and> targetTime (drawFrame64 (closure64 h D as p) t v) = Some T
                    \<and> seek (drawFrame64 (closure64 h D as p) t v)
                        = (if fl 0.2 < \<bar>fsub (currentTime v) T\<bar> then Some T else None)))
          \<and> (readyState v < 2
             \<longrightarrow> targetTime (drawFrame64 (closure64 h D as p) t v) = None
               \<and> seek (drawFrame64 (closure64 h D as p) t v) = None))
       \<and> (\<forall>a. a = as ! nat (\<lfloor>fdiv t (fdiv D (real (length as)))\<rfloor> mod int (length as))
              \<and> atype a = video'
              \<and> fsub (or_number (videoEnd a) 10) (or_number (videoStart a) 0) \<noteq> 0
            \<longrightarrow> (\<exists>r s q T. updateSlideshow64 True (Some D) as t (Some v) playing = Some r
                   \<and> index r = \<lfloor>fdiv t (fdiv D (real (length as)))\<rfloor> mod int (length as)
                   \<and> js_rem t (fdiv D (real (length as))) = Some s
                   \<and> js_rem s (fsub (or_number (videoEnd a) 10) (or_number (videoStart a) 0)) = Some q
                   \<and> T = fadd (or_number (videoStart a) 0) q
                   \<and> preview_targetTime r = Some T
                   \<and> preview_seek r
                       = (if fl 0.5 < \<bar>fsub (currentTime v) T\<bar> then Some T else None)))"
proof -
  have D: "0 < D"
  proof -
    have "(0 :: real) < 1 / 2 ^ 200" by simp
    then show ?thesis using assms(1) by (rule less_le_trans)
  qed
  have sd: "fdiv D (real (length as)) \<noteq> 0"
    using fdiv_pos [of D "real (length as)"] D assms(3) by simp
  obtain s where s: "js_rem t (fdiv D (real (length as))) = Some s"
    using js_rem_Some [OF sd] by blast
  have recorder: "\<exists>s r T. js_rem t (fdiv D (real (length as))) = Some s
                    \<and> js_rem s (fsub (or_number (videoEnd a) (fadd (or_number (videoStart a) 0) 5))
                                  (or_number (videoStart a) 0)) = Some r
                    \<and> T = fadd (or_number (videoStart a) 0) r
                    \<and> targetTime (drawFrame64 (closure64 h D as p) t v) = Some T
                    \<and> seek (drawFrame64 (closure64 h D as p) t v)
                        = (if fl 0.2 < \<bar>fsub (currentTime v) T\<bar> then Some T else None)"
    if a: "a = as ! nat (safeIndex64 (closure64 h D as p) t)"
      and lt: "t < D" and ty: "atype a = video'" and rs: "2 \<le> readyState v"
      and len: "fsub (or_number (videoEnd a) (fadd (or_number (videoStart a) 0) 5))
                  (or_number (videoStart a) 0) \<noteq> 0"
    for a
  proof -
    note tv = recorder_tick_video64 [OF D assms(3,4) lt a ty rs]
    obtain r where r: "js_rem s (fsub (or_number (videoEnd a) (fadd (or_number (videoStart a) 0) 5))
                               (or_number (videoStart a) 0)) = Some r"
      using js_rem_Some [OF len] by blast
    have tt: "targetTime (drawFrame64 (closure64 h D as p) t v)
            = Some (fadd (or_number (videoStart a) 0) r)"
      by (simp only: tv(1) s option.case r option.map)
    have "seek (drawFrame64 (closure64 h D as p) t v)
            = (if fl 0.2 < \<bar>fsub (currentTime v) (fadd (or_number (videoStart a) 0) r)\<bar>
               then Some (fadd (or_number (videoStart a) 0) r) else None)"
      using tv(2) by (simp add: tt)
    with s r tt show ?thesis by blast
  qed
  have not_ready: "targetTime (drawFrame64 (closure64 h D as p) t v) = None
            \<and> seek (drawFrame64 (closure64 h D as p) t v) = None"
    if "a = as ! nat (safeIndex64 (closure64 h D as p) t)" "t < D" "atype a = video'"
      "readyState v < 2"
    for a
    using recorder_tick_not_ready64 [OF D assms(3,4) that(2) that(3) [unfolded that(1)] that(4)]
    by simp
  have preview: "\<exists>r s q T. updateSlideshow64 True (Some D) as t (Some v) playing = Some r
                   \<and> index r = \<lfloor>fdiv t (fdiv D (real (length as)))\<rfloor> mod int (length as)
                   \<and> js_rem t (fdiv D (real (length as))) = Some s
                   \<and> js_rem s (fsub (or_number (videoEnd a) 10) (or_number (videoStart a) 0)) = Some q
                   \<and> T = fadd (or_number (videoStart a) 0) q
                   \<and> preview_targetTime r = Some T
                   \<and> preview_seek r
                       = (if fl 0.5 < \<bar>fsub (currentTime v) T\<bar> then Some T else None)"
    if a: "a = as ! nat (\<lfloor>fdiv t (fdiv D (real (length as)))\<rfloor> mod int (length as))"
      and ty: "atype a = video'"
      and len: "fsub (or_number (videoEnd a) 10) (or_number (videoStart a) 0) \<noteq> 0"
    for a
  proof -
    obtain r where r: "updateSlideshow64 True (Some D) as t (Some v) playing = Some r"
      "index r = \<lfloor>fdiv t (fdiv D (real (length as)))\<rfloor> mod int (length as)"
      "preview_targetTime r
           = (case js_rem t (fdiv D (real (length as))) of
                None \<Rightarrow> None
              | Some s \<Rightarrow> map_option (\<lambda>r. fadd (or_number (videoStart a) 0) r)
                  (js_rem s (fsub (or_number (videoEnd a) 10) (or_number (videoStart a) 0))))"
      "preview_seek r
           = (case preview_targetTime r of
                None \<Rightarrow> None
              | Some T \<Rightarrow> if fl 0.5 < \<bar>fsub (currentTime v) T\<bar> then Some T else None)"
      using preview_tick_video64 [OF D assms(3,4) a ty, of v playing] by blast
    obtain q where q: "js_rem s (fsub (or_number (videoEnd a) 10) (or_number (videoStart a) 0)) = Some q"
      using js_rem_Some [OF len] by blast
    have tt: "preview_targetTime r = Some (fadd (or_number (videoStart a) 0) q)"
      by (simp only: r(3) s option.case q option.map)
    have "preview_seek r
            = (if fl 0.5 < \<bar>fsub (currentTime v) (fadd (or_number (videoStart a) 0) q)\<bar>
               then Some (fadd (or_number (videoStart a) 0) q) else None)"
      using r(4) by (simp add: tt)
    with r(1,2) s q tt show ?thesis by blast
  qed
  show ?thesis
  proof (intro conjI allI impI)
    fix a
    assume "a = as ! nat (safeIndex64 (closure64 h D as p) t) \<and> t < D \<and> atype a = video'"
      and "2 \<le> readyState v
             \<and> fsub (or_number (videoEnd a) (fadd (or_number (videoStart a) 0) 5))
                    (or_number (videoStart a) 0) \<noteq> 0"
    then show "\<exists>s r T. js_rem t (fdiv D (real (length as))) = Some s
                    \<and> js_rem s (fsub (or_number (videoEnd a) (fadd (or_number (videoStart a) 0) 5))
                                  (or_number (videoStart a) 0)) = Some r
                    \<and> T = fadd (or_number (videoStart a) 0) r
                    \<and> targetTime (drawFrame64 (closure64 h D as p) t v) = Some T
                    \<and> seek (drawFrame64 (closure64 h D as p) t v)
                        = (if fl 0.2 < \<bar>fsub (currentTime v) T\<bar> then Some T else None)"
      by (elim conjE, intro recorder)
  next
    fix a
    assume a: "a = as ! nat (safeIndex64 (closure64 h D as p) t) \<and> t < D \<and> atype a = video'"
      and n: "readyState v < 2"
    from a n have "targetTime (drawFrame64 (closure64 h D as p) t v) = None
            \<and> seek (drawFrame64 (closure64 h D as p) t v) = None"
      by (elim conjE, intro not_ready)
    then show "targetTime (drawFrame64 (closure64 h D as p) t v) = None"
      "seek (drawFrame64 (closure64 h D as p) t v) = None" by simp_all
  next
    fix a
    assume "a = as ! nat (\<lfloor>fdiv t (fdiv D (real (length as)))\<rfloor> mod int (length as))
              \<and> atype a = video'
              \<and> fsub (or_number (videoEnd a) 10) (or_number (videoStart a) 0) \<noteq> 0"
    then show "\<exists>r s q T. updateSlideshow64 True (Some D) as t (Some v) playing = Some r
                   \<and> index r = \<lfloor>fdiv t (fdiv D (real (length as)))\<rfloor> mod int (length as)
                   \<and> js_rem t (fdiv D (real (length as))) = Some s
                   \<and> js_rem s (fsub (or_number (videoEnd a) 10) (or_number (videoStart a) 0)) = Some q
                   \<and> T = fadd (or_number (videoStart a) 0) q
                   \<and> preview_targetTime r = Some T
                   \<and> preview_seek r
                       = (if fl 0.5 < \<bar>fsub (currentTime v) T\<bar> then Some T else None)"
      by (elim conjE, intro preview)
  qed
qed

text \<open>Ticks of a nine-second scene playing a clip from second 2 to second 5, evaluated.\<close>

lemma seek_values:
  "fdiv 9 1 = 9"
  "\<lfloor>fdiv 4 9\<rfloor> = 0"
  "\<lfloor>fdiv 1 9\<rfloor> = 0"
  "fadd 2 5 = 7"
  "fsub 5 2 = 3"
  "fsub 10 2 = 8"
  "fadd 2 1 = 3"
  "fadd 2 4 = 6"
  "fsub 0 3 = - 3"
  "fsub 0 6 = - 6"
  "fsub (25 / 8) 3 = 1 / 8"
  "fl (1 / 5) = 3602879701896397 / 18014398509481984"
  "fl (1 / 2) = 1 / 2"
  by (simp_all add: fl_eval)

lemma seek_rems:
  "js_rem 4 9 = Some 4" "js_rem 4 3 = Some 1" "js_rem 4 8 = Some 4" "js_rem 1 9 = Some 1"
  "js_rem_int 0 1 = 0"
  by (simp_all add: js_rem_def js_rem_int_def trunc_def)

lemma safeIndex64_of_one:
  "safeIndex64 (closure64 a_host 9 [a_clip] p) 4 = 0"
  "safeIndex64 (closure64 a_host 9 [a_clip] p) 1 = 0"
  by (simp_all add: safeIndex64_def seek_values)

lemma recorder_seeks:
  "targetTime (drawFrame64 (closure64 a_host 9 [a_clip] TIKTOK) 4 a_video_element) = Some 3"
  "seek (drawFrame64 (closure64 a_host 9 [a_clip] TIKTOK) 4 a_video_element) = Some 3"
  "targetTime (drawFrame64 (closure64 a_host 9 [a_clip] TIKTOK) 4 a_video_element_in_sync) = Some 3"
  "seek (drawFrame64 (closure64 a_host 9 [a_clip] TIKTOK) 4 a_video_element_in_sync) = None"
  "targetTime (drawFrame64 (closure64 a_host 9 [a_clip] TIKTOK) 1 an_unloaded_video_element) = None"
  "seek (drawFrame64 (closure64 a_host 9 [a_clip] TIKTOK) 1 an_unloaded_video_element) = None"
  unfolding drawFrame64_def safeIndex64_of_one
  by (simp_all add: Let_def a_clip_def a_video_element_def a_video_element_in_sync_def
      an_unloaded_video_element_def or_number_def seek_values seek_rems)

text \<open>
  The theorem in scenario B: a clip from second 2 to second 5 in a nine-second scene,
  four seconds elapsed.  With the element at position 0 both paths seek to second 3;
  with the element at position 3.125 neither seeks; and the recorder does not seek
  while the element is not ready.
\<close>

theorem seek_tolerance_in_doubles_witness:
  "targetTime (drawFrame64 (closure64 a_host 9 [a_clip] TIKTOK) 4 a_video_element) = Some 3
   \<and> seek (drawFrame64 (closure64 a_host 9 [a_clip] TIKTOK) 4 a_video_element) = Some 3
   \<and> seek (drawFrame64 (closure64 a_host 9 [a_clip] TIKTOK) 4 a_video_element_in_sync) = None
   \<and> seek (drawFrame64 (closure64 a_host 9 [a_clip] TIKTOK) 1 an_unloaded_video_element) = None
   \<and> map_option preview_targetTime
        (updateSlideshow64 True (Some 9) [a_clip] 4 (Some a_video_element) True) = Some (Some 3)
   \<and> map_option preview_seek
        (updateSlideshow64 True (Some 9) [a_clip] 4 (Some a_video_element) True) = Some (Some 3)
   \<and> map_option preview_seek
        (updateSlideshow64 True (Some 9) [a_clip] 4 (Some a_video_element_in_sync) True) = Some None"
proof -
  have v: "atype a_clip = video'" "readyState a_video_element = 4"
    "readyState a_video_element_in_sync = 4" "readyState an_unloaded_video_element = 0"
    "currentTime a_video_element = 0" "currentTime a_video_element_in_sync = 25 / 8"
    "videoStart a_clip = Some 2" "videoEnd a_clip = Some 5"
    by (simp_all add: a_clip_def a_video_element_def a_video_element_in_sync_def
        an_unloaded_video_element_def)
  note T = seek_tolerance_in_doubles [of 9 "[a_clip]" 4 a_host TIKTOK _ True]
    seek_tolerance_in_doubles [of 9 "[a_clip]" 1 a_host TIKTOK an_unloaded_video_element True]
  have a: "\<exists>T. T = 3
        \<and> targetTime (drawFrame64 (closure64 a_host 9 [a_clip] TIKTOK) 4 a_video_element) = Some T
        \<and> seek (drawFrame64 (closure64 a_host 9 [a_clip] TIKTOK) 4 a_video_element)
            = (if fl 0.2 < \<bar>fsub (currentTime a_video_element) T\<bar> then Some T else None)"
    using T(1) [of a_video_element, THEN conjunct1, rule_format, of a_clip]
    by (simp add: safeIndex64_of_one v or_number_def seek_values seek_rems)
  have b: "\<exists>T. T = 3
        \<and> targetTime (drawFrame64 (closure64 a_host 9 [a_clip] TIKTOK) 4 a_video_element_in_sync) = Some T
        \<and> seek (drawFrame64 (closure64 a_host 9 [a_clip] TIKTOK) 4 a_video_element_in_sync)
            = (if fl 0.2 < \<bar>fsub (currentTime a_video_element_in_sync) T\<bar> then Some T else None)"
    using T(1) [of a_video_element_in_sync, THEN conjunct1, rule_format, of a_clip]
    by (simp add: safeIndex64_of_one v or_number_def seek_values seek_rems)
  have c: "seek (drawFrame64 (closure64 a_host 9 [a_clip] TIKTOK) 1 an_unloaded_video_element) = None"
    using T(2) [THEN conjunct1, rule_format, of a_clip] by (simp add: safeIndex64_of_one v)
  have d: "\<exists>r T. T = 3
        \<and> updateSlideshow64 True (Some 9) [a_clip] 4 (Some a_video_element) True = Some r
        \<and> preview_targetTime r = Some T
        \<and> preview_seek r = (if fl 0.5 < \<bar>fsub (currentTime a_video_element) T\<bar> then Some T else None)"
    using T(1) [of a_video_element, THEN conjunct2, rule_format, of a_clip]
    by (auto simp: v or_number_def seek_values seek_rems)
  have e: "\<exists>r T. T = 3
        \<and> updateSlideshow64 True (Some 9) [a_clip] 4 (Some a_video_element_in_sync) True = Some r
        \<and> preview_targetTime r = Some T
        \<and> preview_seek r = (if fl 0.5 < \<bar>fsub (currentTime a_video_element_in_sync) T\<bar> then Some T else None)"
    using T(1) [of a_video_element_in_sync, THEN conjunct2, rule_format, of a_clip]
    by (auto simp: v or_number_def seek_values seek_rems)
  have 0: "targetTime (drawFrame64 (closure64 a_host 9 [a_clip] TIKTOK) 4 a_video_element) = Some 3"
    using a by simp
  have 1: "seek (drawFrame64 (closure64 a_host 9 [a_clip] TIKTOK) 4 a_video_element) = Some 3"
    using a by (simp add: v seek_values)
  have 2: "seek (drawFrame64 (closure64 a_host 9 [a_clip] TIKTOK) 4 a_video_element_in_sync) = None"
    using b by (simp add: v seek_values)
  have 3: "map_option preview_targetTime
        (updateSlideshow64 True (Some 9) [a_clip] 4 (Some a_video_element) True) = Some (Some 3)"
    "map_option preview_seek
        (updateSlideshow64 True (Some 9) [a_clip] 4 (Some a_video_element) True) = Some (Some 3)"
    using d by (auto simp: v seek_values)
  have 4: "map_option preview_seek
        (updateSlideshow64 True (Some 9) [a_clip] 4 (Some a_video_element_in_sync) True) = Some None"
    using e by (auto simp: v seek_values)
  show ?thesis using 0 1 2 3 4 c by simp
qed

text \<open>
  Claim C4 as stated fails in the recorder while the video element has no data
  (\<open>readyState\<close> below 2): the video asset is active, the position differs from the
  target by three seconds, and the tick issues no seek.
\<close>

theorem seek_not_ready_counterexample:
  "atype a_clip = video'
   \<and> scene (drawFrame64 (closure64 a_host 9 [a_clip] TIKTOK) 1 an_unloaded_video_element) = Some 0
   \<and> spec_targetTime 2 (Some 5) 1 9 = 3
   \<and> 0.2 < \<bar>currentTime an_unloaded_video_element - 3\<bar>
   \<and> seek (drawFrame64 (closure64 a_host 9 [a_clip] TIKTOK) 1 an_unloaded_video_element) = None"
proof -
  have "scene (drawFrame64 (closure64 a_host 9 [a_clip] TIKTOK) 1 an_unloaded_video_element) = Some 0"
    unfolding drawFrame64_def safeIndex64_of_one
    by (simp add: Let_def a_clip_def an_unloaded_video_element_def a_video_element_def)
  then show ?thesis
    using recorder_seeks(6)
    by (simp add: a_clip_def an_unloaded_video_element_def a_video_element_def
        spec_targetTime_def spec_mod_def)
qed

text \<open>
  Claim C3 at a video asset with \<open>videoStart = 2\<close> and no \<open>videoEnd\<close>, six seconds
  into a thirty-second scene.  The recorder takes the clip end to be \<open>2 + 5\<close> and
  targets second 3, as the specification's formula does; the preview takes it to be
  \<open>10\<close> and targets second 8.
\<close>

theorem preview_clip_end_default:
  "map_option preview_targetTime
     (updateSlideshow True (Some 30) [an_open_clip] 6 (Some a_video_element) True) = Some (Some 8)
   \<and> targetTime (drawFrame (closure_of a_host 30 [an_open_clip] TIKTOK) 6 a_video_element) = Some 3
   \<and> spec_targetTime 2 None 6 30 = 3"
  by (simp add: drawFrame_def updateSlideshow_def safeIndex_def an_open_clip_def a_clip_def
        a_video_element_def or_number_def js_rem_def js_rem_int_def trunc_def Let_def
        spec_targetTime_def spec_mod_def)

text \<open>
  So at that input the preview's target time is not the recorder's, and not the
  specification's.
\<close>

theorem preview_clip_end_default_witness:
  "map_option preview_targetTime
     (updateSlideshow True (Some 30) [an_open_clip] 6 (Some a_video_element) True)
     \<noteq> Some (targetTime (drawFrame (closure_of a_host 30 [an_open_clip] TIKTOK) 6 a_video_element))
   \<and> map_option preview_targetTime
     (updateSlideshow True (Some 30) [an_open_clip] 6 (Some a_video_element) True)
     \<noteq> Some (Some (spec_targetTime 2 None 6 30))"
proof -
  note d = preview_clip_end_default
  show ?thesis
    unfolding d [THEN conjunct1] d [THEN conjunct2, THEN conjunct1]
      d [THEN conjunct2, THEN conjunct2]
    by simp
qed

section \<open>The frame sampler: lemmas\<close>

text \<open>The number of iterations left, before and after one more step.\<close>

lemma ceiling_step:
  fixes d t dt :: real
  assumes "0 < dt" "t < d"
  shows "nat \<lceil>(d - t) / dt\<rceil> = Suc (nat \<lceil>(d - (t + dt)) / dt\<rceil>)"
proof -
  have e: "(d - (t + dt)) / dt = (d - t) / dt - 1"
    using assms(1) by (simp add: field_simps)
  have "0 < (d - t) / dt" using assms by simp
  then have "1 \<le> \<lceil>(d - t) / dt\<rceil>" by (simp add: le_ceiling_iff)
  then have "nat \<lceil>(d - t) / dt\<rceil> = Suc (nat (\<lceil>(d - t) / dt\<rceil> - 1))" by arith
  then show ?thesis unfolding e by (simp only: ceiling_diff_one)
qed

lemma ceiling_done:
  fixes d t dt :: real
  assumes "0 < dt" "\<not> t < d"
  shows "nat \<lceil>(d - t) / dt\<rceil> = 0"
proof -
  have "(d - t) / dt \<le> 0" using assms by (simp add: field_simps)
  then have "\<lceil>(d - t) / dt\<rceil> \<le> 0" by (simp add: ceiling_le_iff)
  then show ?thesis by simp
qed

lemma upt_shift: "map f [0..<Suc n] = f 0 # map (\<lambda>k. f (Suc k)) [0..<n]"
  by (simp add: upt_conv_Cons map_Suc_upt [symmetric] del: upt_Suc)

text \<open>
  With a context, when every seek completes and every capture succeeds, the loop
  returns the frames it had plus one frame for each remaining step.
\<close>

lemma sample_good:
  assumes "0 < dt"
    and "\<forall>k < nat \<lceil>(d - t) / dt\<rceil>. seeked f (t + real k * dt) \<and> capture f (t + real k * dt) \<noteq> None"
  shows "sample True f dt d t acc
           = Some (Inr (acc @ map (\<lambda>k. frame_at f (t + real k * dt)) [0..<nat \<lceil>(d - t) / dt\<rceil>]))"
  using assms(2)
proof (induction "nat \<lceil>(d - t) / dt\<rceil>" arbitrary: t acc)
  case 0
  then have "\<not> t < d" using ceiling_step [OF assms(1), of t d] by auto
  then show ?case using 0 by (subst sample.simps) simp
next
  case (Suc n)
  have lt: "t < d"
  proof (rule ccontr)
    assume "\<not> t < d"
    from ceiling_done [OF assms(1) this] Suc(2) show False by simp
  qed
  note cs = ceiling_step [OF assms(1) lt]
  have n: "n = nat \<lceil>(d - (t + dt)) / dt\<rceil>" using Suc(2) cs by simp
  have here: "seeked f t" "capture f t \<noteq> None" using Suc(3) [rule_format, of 0] cs by simp_all
  then obtain b where b: "capture f t = Some b" by blast
  have rest: "\<forall>k < nat \<lceil>(d - (t + dt)) / dt\<rceil>.
      seeked f (t + dt + real k * dt) \<and> capture f (t + dt + real k * dt) \<noteq> None"
  proof (intro allI impI)
    fix k assume "k < nat \<lceil>(d - (t + dt)) / dt\<rceil>"
    then have "Suc k < nat \<lceil>(d - t) / dt\<rceil>" using cs by simp
    from Suc(3) [rule_format, OF this]
    show "seeked f (t + dt + real k * dt) \<and> capture f (t + dt + real k * dt) \<noteq> None"
      by (simp add: algebra_simps)
  qed
  have fr: "\<lparr>frame_timestamp = round t, frame_base64 = b\<rparr> = frame_at f t"
    by (simp add: frame_at_def b)
  have "sample True f dt d t acc = sample True f dt d (t + dt) (acc @ [frame_at f t])"
    using lt here b by (subst sample.simps) (simp add: fr)
  also have "\<dots> = Some (Inr ((acc @ [frame_at f t])
        @ map (\<lambda>k. frame_at f (t + dt + real k * dt)) [0..<nat \<lceil>(d - (t + dt)) / dt\<rceil>]))"
    by (rule Suc(1) [OF n rest])
  also have "(acc @ [frame_at f t])
        @ map (\<lambda>k. frame_at f (t + dt + real k * dt)) [0..<nat \<lceil>(d - (t + dt)) / dt\<rceil>]
      = acc @ map (\<lambda>k. frame_at f (t + real k * dt)) [0..<nat \<lceil>(d - t) / dt\<rceil>]"
    unfolding cs upt_shift by (simp add: algebra_simps)
  finally show ?case .
qed

text \<open>With a context, a loop that resolves has added one frame for each remaining step.\<close>

lemma sample_success:
  assumes "0 < dt"
    and "sample True f dt d t acc = Some (Inr frames)"
  shows "frames = acc @ map (\<lambda>k. frame_at f (t + real k * dt)) [0..<nat \<lceil>(d - t) / dt\<rceil>]"
  using assms(2)
proof (induction "nat \<lceil>(d - t) / dt\<rceil>" arbitrary: t acc)
  case 0
  then have "\<not> t < d" using ceiling_step [OF assms(1), of t d] by auto
  then show ?case using 0 by (subst (asm) sample.simps) simp
next
  case (Suc n)
  have lt: "t < d"
  proof (rule ccontr)
    assume "\<not> t < d"
    from ceiling_done [OF assms(1) this] Suc(2) show False by simp
  qed
  note cs = ceiling_step [OF assms(1) lt]
  have n: "n = nat \<lceil>(d - (t + dt)) / dt\<rceil>" using Suc(2) cs by simp
  from Suc(3) lt obtain b where b: "capture f t = Some b"
    and nx: "sample True f dt d (t + dt)
                 (acc @ [\<lparr>frame_timestamp = round t, frame_base64 = b\<rparr>]) = Some (Inr frames)"
    by (subst (asm) sample.simps) (auto split: if_splits option.splits)
  have fr: "\<lparr>frame_timestamp = round t, frame_base64 = b\<rparr> = frame_at f t"
    by (simp add: frame_at_def b)
  have "frames = (acc @ [frame_at f t])
        @ map (\<lambda>k. frame_at f (t + dt + real k * dt)) [0..<nat \<lceil>(d - (t + dt)) / dt\<rceil>]"
    using Suc(1) [OF n nx [unfolded fr]] .
  also have "\<dots> = acc @ map (\<lambda>k. frame_at f (t + real k * dt)) [0..<nat \<lceil>(d - t) / dt\<rceil>]"
    unfolding cs upt_shift by (simp add: algebra_simps)
  finally show ?case .
qed

text \<open>Without a context the loop steps through the file and adds nothing.\<close>

lemma sample_no_context:
  assumes "0 < dt"
    and "\<forall>k < nat \<lceil>(d - t) / dt\<rceil>. seeked f (t + real k * dt)"
  shows "sample False f dt d t acc = Some (Inr acc)"
  using assms(2)
proof (induction "nat \<lceil>(d - t) / dt\<rceil>" arbitrary: t)
  case 0
  then have "\<not> t < d" using ceiling_step [OF assms(1), of t d] by auto
  then show ?case by (subst sample.simps) simp
next
  case (Suc n)
  have lt: "t < d"
  proof (rule ccontr)
    assume "\<not> t < d"
    from ceiling_done [OF assms(1) this] Suc(2) show False by simp
  qed
  note cs = ceiling_step [OF assms(1) lt]
  have n: "n = nat \<lceil>(d - (t + dt)) / dt\<rceil>" using Suc(2) cs by simp
  have here: "seeked f t" using Suc(3) [rule_format, of 0] cs by simp
  have rest: "\<forall>k < nat \<lceil>(d - (t + dt)) / dt\<rceil>. seeked f (t + dt + real k * dt)"
  proof (intro allI impI)
    fix k assume "k < nat \<lceil>(d - (t + dt)) / dt\<rceil>"
    then have "Suc k < nat \<lceil>(d - t) / dt\<rceil>" using cs by simp
    from Suc(3) [rule_format, OF this]
    show "seeked f (t + dt + real k * dt)" by (simp add: algebra_simps)
  qed
  have "sample False f dt d t acc = sample False f dt d (t + dt) acc"
    using lt here by (subst sample.simps) simp
  then show ?case using Suc(1) [OF n rest] by simp
qed

text \<open>
  While the accumulated times are exactly representable, the loop in doubles is the
  loop over the reals.
\<close>

lemma sample64_exact:
  assumes "0 < dt"
    and "\<forall>k \<le> nat \<lceil>d / dt\<rceil>. fl (real k * dt) = real k * dt"
  shows "j \<le> nat \<lceil>d / dt\<rceil>
         \<Longrightarrow> sample64 ctx f dt d (real j * dt) acc = sample ctx f dt d (real j * dt) acc"
proof (induction "nat \<lceil>d / dt\<rceil> - j" arbitrary: j acc)
  case 0
  then have j: "j = nat \<lceil>d / dt\<rceil>" by linarith
  have "d / dt \<le> real_of_int \<lceil>d / dt\<rceil>" by (rule le_of_int_ceiling)
  also have "\<dots> \<le> real (nat \<lceil>d / dt\<rceil>)" by simp
  finally have "d / dt \<le> real j" by (simp add: j)
  then have "\<not> real j * dt < d" using assms(1) by (simp add: field_simps)
  then show ?case by (subst sample64.simps, subst sample.simps) simp
next
  case (Suc n)
  then have lt: "j < nat \<lceil>d / dt\<rceil>" by simp
  then have sj: "Suc j \<le> nat \<lceil>d / dt\<rceil>" by simp
  have n: "n = nat \<lceil>d / dt\<rceil> - Suc j" using Suc(2) by simp
  have "real j * dt + dt = real (Suc j) * dt" by (simp add: algebra_simps)
  then have nx: "fadd (real j * dt) dt = real (Suc j) * dt" "real j * dt + dt = real (Suc j) * dt"
    using assms(2) [rule_format, OF sj] by (simp_all add: fadd_def)
  note ih = Suc(1) [OF n sj]
  show ?case
    by (subst sample64.simps, subst sample.simps) (simp only: nx ih)
qed

text \<open>Whole-number steps keep the accumulated times exact while they stay below \<open>2^53\<close>.\<close>

lemma whole_steps_exact:
  assumes "0 < s" "d + real s \<le> 2 ^ 53"
  shows "\<forall>k \<le> nat \<lceil>d / real s\<rceil>. fl (real k * real s) = real k * real s"
proof (intro allI impI)
  fix k assume k: "k \<le> nat \<lceil>d / real s\<rceil>"
  have s: "0 < real s" using assms(1) by simp
  have "real (k * s) \<le> 2 ^ 53"
  proof (cases "k = 0")
    case True
    then show ?thesis by simp
  next
    case False
    then have "0 < nat \<lceil>d / real s\<rceil>" using k by linarith
    then have "real (nat \<lceil>d / real s\<rceil>) = real_of_int \<lceil>d / real s\<rceil>" by simp
    also have "\<dots> < d / real s + 1" by linarith
    finally have "real k < d / real s + 1" using k by simp
    then have "real k * real s < (d / real s + 1) * real s"
      using s by (simp only: mult_less_cancel_right_pos)
    also have "\<dots> = d + real s" using s by (simp add: field_simps)
    finally show ?thesis using assms(2) by simp
  qed
  then have "k * s \<le> 2 ^ 53" by (simp only: of_nat_le_iff [symmetric, where 'a = real] of_nat_power of_nat_numeral)
  from fl_of_nat [OF this] show "fl (real k * real s) = real k * real s" by simp
qed

text \<open>
  Claim C5, as amended.  For a source of positive duration and a positive step whose
  multiples up to \<open>ceil(duration / step)\<close> are doubles (such as every whole-number
  step with \<open>duration + step \<le> 2^53\<close>), with a 2D context available: a run that
  resolves returns exactly \<open>ceil(duration / step)\<close> frames, in order, frame \<open>k\<close>
  stamped \<open>round(k * step)\<close>; the run does resolve when every seek completes and
  every capture succeeds; and an absent step is the step 3.
\<close>

theorem sampler_frames_in_doubles:
  assumes "loadedmetadata f = Some (d, w, h)" "0 < d" "0 < dt"
    and "\<forall>k \<le> nat \<lceil>d / dt\<rceil>. fl (real k * dt) = real k * dt"
  shows "(extractFramesFromVideo64 True f (Some dt) = Some (Inr frames) \<longrightarrow>
            length frames = nat \<lceil>d / dt\<rceil>
          \<and> map frame_timestamp frames = map (\<lambda>k. round (real k * dt)) [0..<nat \<lceil>d / dt\<rceil>])
       \<and> ((\<forall>k < nat \<lceil>d / dt\<rceil>. seeked f (real k * dt) \<and> capture f (real k * dt) \<noteq> None) \<longrightarrow>
            (\<exists>fs. extractFramesFromVideo64 True f (Some dt) = Some (Inr fs)))
       \<and> extractFramesFromVideo64 True f None = extractFramesFromVideo64 True f (Some 3)"
proof (intro conjI impI)
  have "sample64 True f dt d (real 0 * dt) [] = sample True f dt d (real 0 * dt) []"
    by (rule sample64_exact [OF assms(3,4)]) simp
  then have e: "extractFramesFromVideo64 True f (Some dt) = sample True f dt d 0 []"
    using assms(1) by (simp add: extractFramesFromVideo64_def)
  {
    assume "extractFramesFromVideo64 True f (Some dt) = Some (Inr frames)"
    then have "sample True f dt d 0 [] = Some (Inr frames)" using e by simp
    from sample_success [OF assms(3) this]
    have fr: "frames = map (\<lambda>k. frame_at f (real k * dt)) [0..<nat \<lceil>d / dt\<rceil>]" by simp
    show "length frames = nat \<lceil>d / dt\<rceil>" unfolding fr by simp
    show "map frame_timestamp frames = map (\<lambda>k. round (real k * dt)) [0..<nat \<lceil>d / dt\<rceil>]"
      unfolding fr by (simp add: frame_at_def)
  }
  {
    assume "\<forall>k < nat \<lceil>d / dt\<rceil>. seeked f (real k * dt) \<and> capture f (real k * dt) \<noteq> None"
    then have "\<forall>k < nat \<lceil>(d - 0) / dt\<rceil>. seeked f (0 + real k * dt) \<and> capture f (0 + real k * dt) \<noteq> None"
      by simp
    from sample_good [OF assms(3) this]
    show "\<exists>fs. extractFramesFromVideo64 True f (Some dt) = Some (Inr fs)" unfolding e by blast
  }
  show "extractFramesFromVideo64 True f None = extractFramesFromVideo64 True f (Some 3)"
    by (simp add: extractFramesFromVideo64_def split: option.splits)
qed

text \<open>The accumulated times of a run with step \<open>0.1\<close> and of a run with step 4.\<close>

lemma tenth_steps:
  "fl (1 / 10) = 3602879701896397 / 36028797018963968"
  "fadd 0 (3602879701896397 / 36028797018963968) = 3602879701896397 / 36028797018963968"
  "fadd (3602879701896397 / 36028797018963968) (3602879701896397 / 36028797018963968)
     = 3602879701896397 / 18014398509481984"
  "fadd (3602879701896397 / 18014398509481984) (3602879701896397 / 36028797018963968)
     = 1351079888211149 / 4503599627370496"
  "fadd (1351079888211149 / 4503599627370496) (3602879701896397 / 36028797018963968)
     = 3602879701896397 / 9007199254740992"
  "fadd (3602879701896397 / 9007199254740992) (3602879701896397 / 36028797018963968) = 1 / 2"
  "fadd (1 / 2) (3602879701896397 / 36028797018963968) = 5404319552844595 / 9007199254740992"
  "fadd (5404319552844595 / 9007199254740992) (3602879701896397 / 36028797018963968)
     = 3152519739159347 / 4503599627370496"
  "fadd (3152519739159347 / 4503599627370496) (3602879701896397 / 36028797018963968)
     = 7205759403792793 / 9007199254740992"
  "fadd (7205759403792793 / 9007199254740992) (3602879701896397 / 36028797018963968)
     = 2026619832316723 / 2251799813685248"
  "fadd (2026619832316723 / 2251799813685248) (3602879701896397 / 36028797018963968)
     = 9007199254740991 / 9007199254740992"
  "fadd (9007199254740991 / 9007199254740992) (3602879701896397 / 36028797018963968)
     = 4953959590107545 / 4503599627370496"
  by (simp_all add: fl_eval)

lemma four_steps: "fadd 0 4 = 4" "fadd 4 4 = 8" "fadd 8 4 = 12"
  by (simp_all add: fl_eval)

lemma sampler_runs:
  "extractFramesFromVideo64 True a_video_file (Some 4)
     = Some (Inr [\<lparr>frame_timestamp = 0, frame_base64 = ''QUJD''\<rparr>,
                  \<lparr>frame_timestamp = 4, frame_base64 = ''QUJD''\<rparr>,
                  \<lparr>frame_timestamp = 8, frame_base64 = ''QUJD''\<rparr>])"
  "extractFramesFromVideo64 False a_video_file (Some 4) = Some (Inr [])"
  by (simp_all add: extractFramesFromVideo64_def a_video_file_def sample64.simps four_steps)

lemma sampler_tenths:
  "extractFramesFromVideo64 True a_short_video_file (Some (fl (1 / 10)))
     = Some (Inr (map (\<lambda>t. \<lparr>frame_timestamp = t, frame_base64 = ''QUJD''\<rparr>)
                    [0, 0, 0, 0, 0, 1, 1, 1, 1, 1, 1]))"
  by (simp add: extractFramesFromVideo64_def a_short_video_file_def sample64.simps tenth_steps
      round_def)

text \<open>
  The theorem in scenario C: a ten-second source sampled every four seconds gives the
  three frames stamped 0, 4 and 8.
\<close>

theorem sampler_frames_in_doubles_witness:
  "extractFramesFromVideo64 True a_video_file (Some 4)
     = Some (Inr [\<lparr>frame_timestamp = 0, frame_base64 = ''QUJD''\<rparr>,
                  \<lparr>frame_timestamp = 4, frame_base64 = ''QUJD''\<rparr>,
                  \<lparr>frame_timestamp = 8, frame_base64 = ''QUJD''\<rparr>])
   \<and> nat \<lceil>(10 :: real) / 4\<rceil> = 3"
proof -
  have c: "\<lceil>(5 :: real) / 2\<rceil> = 3" by (simp add: ceiling_eq_iff)
  have x: "\<forall>k \<le> nat \<lceil>10 / (4 :: real)\<rceil>. fl (real k * 4) = real k * 4"
    using whole_steps_exact [of 4 10] by simp
  show ?thesis
    using sampler_frames_in_doubles [of a_video_file 10 1280 720 4
        "[\<lparr>frame_timestamp = 0, frame_base64 = ''QUJD''\<rparr>,
          \<lparr>frame_timestamp = 4, frame_base64 = ''QUJD''\<rparr>,
          \<lparr>frame_timestamp = 8, frame_base64 = ''QUJD''\<rparr>]"] x sampler_runs(1) c
    by (simp add: a_video_file_def)
qed

text \<open>
  Claim C5 as stated fails twice.  When the canvas yields no 2D context the run on the
  ten-second source with step 4 resolves, and returns no frame instead of three.  And
  with a context, a one-second source sampled every \<open>0.1\<close> seconds gives eleven
  frames where \<open>ceil(duration / step)\<close> is ten: the tenth accumulated time is
  \<open>0.9999999999999999\<close>, still below the duration.  The sixth frame, at \<open>0.5\<close>, is
  stamped 1.
\<close>

theorem sampler_frames_counterexample:
  "extractFramesFromVideo64 False a_video_file (Some 4) = Some (Inr [])
   \<and> nat \<lceil>(10 :: real) / 4\<rceil> = 3
   \<and> extractFramesFromVideo64 True a_short_video_file (Some (fl (1 / 10)))
       = Some (Inr (map (\<lambda>t. \<lparr>frame_timestamp = t, frame_base64 = ''QUJD''\<rparr>)
                      [0, 0, 0, 0, 0, 1, 1, 1, 1, 1, 1]))
   \<and> nat \<lceil>1 / fl (1 / 10)\<rceil> = 10"
proof -
  have c: "\<lceil>(5 :: real) / 2\<rceil> = 3" by (simp add: ceiling_eq_iff)
  have t: "nat \<lceil>1 / fl (1 / 10)\<rceil> = 10"
    unfolding tenth_steps(1) by (simp add: ceiling_eq_iff)
  show ?thesis using c t sampler_runs(2) sampler_tenths by simp
qed

text \<open>
  Claim C8, as amended.  Without a 2D context \<open>renderVideo\<close> rejects at once with the
  error \<open>Could not get canvas context\<close>, before anything is set up or recorded.  The
  frame sampler does not fail: when its seeks complete it steps through the whole source,
  captures nothing and resolves with the empty list of frames.
\<close>

theorem no_context:
  "(\<not> getContext host' \<longrightarrow>
      renderVideo host' D as p clk = Inl (Error ''Could not get canvas context''))
   \<and> (loadedmetadata f = Some (d, w, h) \<and> 0 < dt \<and> (\<forall>k < nat \<lceil>d / dt\<rceil>. seeked f (real k * dt)) \<longrightarrow>
        extractFramesFromVideo False f (Some dt) = Some (Inr []))"
proof (intro conjI impI)
  assume "\<not> getContext host'"
  then show "renderVideo host' D as p clk = Inl (Error ''Could not get canvas context'')"
    by (simp add: renderVideo_def)
next
  assume a: "loadedmetadata f = Some (d, w, h) \<and> 0 < dt \<and> (\<forall>k < nat \<lceil>d / dt\<rceil>. seeked f (real k * dt))"
  then have "\<forall>k < nat \<lceil>(d - 0) / dt\<rceil>. seeked f (0 + real k * dt)" by simp
  from sample_no_context [OF _ this, of "[]"] a
  show "extractFramesFromVideo False f (Some dt) = Some (Inr [])"
    by (simp add: extractFramesFromVideo_def)
qed

text \<open>The theorem at a host without a context and the ten-second source.\<close>

theorem no_context_witness:
  "renderVideo a_host_without_context 30 [a_picture] TIKTOK 0
     = Inl (Error ''Could not get canvas context'')
   \<and> extractFramesFromVideo False a_video_file (Some 4) = Some (Inr [])"
  using no_context [of a_host_without_context 30 "[a_picture]" TIKTOK 0 a_video_file 10 1280 720 4]
  by (simp add: a_host_without_context_def a_host_def a_video_file_def)

text \<open>
  Claim C8 as stated fails for the frame sampler: without a 2D context the run (here
  with the default step) surfaces no error, it resolves with an empty result.
\<close>

theorem sampler_default_step_without_context_counterexample:
  "extractFramesFromVideo False a_video_file None = Some (Inr [])"
  by (simp add: extractFramesFromVideo_def a_video_file_def sample.simps)

section \<open>The recording session: lemmas\<close>

lemma step_keeps [simp]:
  "vars (step s ev) = vars s" "startTime (step s ev) = startTime s"
  "mimeType (step s ev) = mimeType s"
  by (cases ev; simp add: Let_def split: list.splits)+

lemma run_keeps [simp]:
  "vars (run s evs) = vars s" "startTime (run s evs) = startTime s"
  "mimeType (run s evs) = mimeType s"
  unfolding run_def by (induction evs arbitrary: s; simp)+

lemma run_snoc: "run s (evs @ [ev]) = step (run s evs) ev"
  by (simp add: run_def)

lemma clocks_append: "clocks (evs @ evs') = clocks evs @ clocks evs'"
  by (induction evs rule: clocks.induct) simp_all

text \<open>What a tick reports, and how it ends on either side of the duration.\<close>

lemma drawFrame_progress: "progress (drawFrame c e v) = min 100 (e / duration c * 100)"
  by (simp add: drawFrame_def Let_def split: option.splits prod.splits)




lemma finished_by_update [simp]:
  "finished_by (s\<lparr>now := n\<rparr>) = finished_by s"
  "finished_by (s\<lparr>timers := ts\<rparr>) = finished_by s"
  "finished_by (s\<lparr>state := st\<rparr>) = finished_by s"
  "finished_by (s\<lparr>stop_pending := sp\<rparr>) = finished_by s"
  "finished_by (s\<lparr>stopped := so\<rparr>) = finished_by s"
  "finished_by (s\<lparr>chunks := cs\<rparr>) = finished_by s"
  "finished_by (s\<lparr>resolved := r\<rparr>) = finished_by s"
  by (rule ext, simp add: finished_by_def)+













text \<open>Every step of the host keeps the ticks in line with the clock readings.\<close>

lemma tracked_frame:
  assumes "tracked s cs"
  shows "tracked (step s (Frame clock v)) (cs @ [clock])"
proof (cases "frame_pending s")
  case False
  have "take (length (log s)) (map (\<lambda>c. c - startTime s) cs @ [clock - startTime s])
          = take (length (log s)) (map (\<lambda>c. c - startTime s) cs)"
    using assms by (simp add: tracked_def)
  then show ?thesis using assms False by (simp add: tracked_def)
next
  case True
  then have len: "length (log s) = length cs" using assms by (simp add: tracked_def)
  have el: "map (\<lambda>(w, e, k). e) (log s) = map (\<lambda>c. c - startTime s) cs"
    using assms len by (simp add: tracked_def)
  show ?thesis
    using assms True len el
    by (simp add: tracked_def Let_def drawFrame_progress)
qed

lemma tracked_step:
  assumes "tracked s cs"
  shows "tracked (step s ev) (cs @ clocks [ev])"
proof (cases ev)
  case (Frame clock v)
  then show ?thesis using tracked_frame [OF assms] by simp
qed (use assms in \<open>auto simp: tracked_def split: list.splits\<close>)

lemma tracked_run: "tracked s cs \<Longrightarrow> tracked (run s evs) (cs @ clocks evs)"
proof (induction evs rule: rev_induct)
  case Nil
  then show ?case by (simp add: run_def)
next
  case (snoc ev evs)
  from tracked_step [OF snoc.IH [OF snoc.prems], of ev]
  show ?case by (simp add: run_snoc clocks_append)
qed

lemma tracked_start: "renderVideo h D as p clk = Inr s0 \<Longrightarrow> tracked s0 []"
  by (auto simp: renderVideo_def tracked_def split: if_splits)

lemma percent_mono:
  fixes D :: real
  assumes "0 < D" "a \<le> b"
  shows "min 100 (a / D * 100) \<le> min 100 (b / D * 100)"
proof -
  have "a / D \<le> b / D" using assms by (simp add: divide_right_mono)
  then have "a / D * 100 \<le> b / D * 100" by (intro mult_right_mono) simp_all
  then show ?thesis by (rule min.mono [OF order_refl])
qed

text \<open>
  Claim C7.  With a positive duration and an audio clock that does not run backwards,
  every tick of a render reports \<open>min(100, elapsed / duration * 100)\<close> for its
  elapsed time (the clock reading less the start time), and the reports of the render,
  in order, lie between 0 and 100 and never decrease.
\<close>

theorem progress_reports:
  assumes "renderVideo h D as p clk = Inr s0" "0 < D" "sorted (clk # clocks evs)"
  shows "reported (run s0 evs) = map (\<lambda>(w, e, k). min 100 (e / D * 100)) (log (run s0 evs))
       \<and> map (\<lambda>(w, e, k). e) (log (run s0 evs))
           = take (length (log (run s0 evs))) (map (\<lambda>c. c - clk) (clocks evs))
       \<and> list_all (\<lambda>r. 0 \<le> r \<and> r \<le> 100) (reported (run s0 evs))
       \<and> sorted (reported (run s0 evs))"
proof -
  let ?s = "run s0 evs"
  let ?es = "map (\<lambda>(w, e, k). e) (log ?s)"
  let ?g = "\<lambda>e. min 100 (e / D * 100)"
  have d: "duration (vars s0) = D" and st: "startTime s0 = clk"
    using assms(1) by (auto simp: renderVideo_def split: if_splits)
  have tr: "tracked ?s (clocks evs)"
    using tracked_run [OF tracked_start [OF assms(1)], of evs] by simp
  have es: "?es = take (length (log ?s)) (map (\<lambda>c. c - clk) (clocks evs))"
    using tr by (simp add: tracked_def st)
  have rep: "reported ?s = map ?g ?es"
  proof -
    have "list_all (\<lambda>(w, e, k). progress k = ?g e) (log ?s)"
      using tr by (simp add: tracked_def d)
    then show ?thesis by (auto simp: reported_def list_all_iff)
  qed
  have r1: "reported ?s = map (\<lambda>(w, e, k). min 100 (e / D * 100)) (log ?s)"
    unfolding rep by (simp add: case_prod_beta comp_def)
  have all: "\<forall>c \<in> set (clocks evs). clk \<le> c" and so: "sorted (clocks evs)"
    using assms(3) by simp_all
  have sorted_el: "sorted (map (\<lambda>c. c - clk) (clocks evs))"
    using so by (simp add: sorted_map sorted_wrt_iff_nth_less sorted_iff_nth_mono)
  have "sorted ?es" unfolding es by (rule sorted_wrt_take [OF sorted_el])
  then have sr: "sorted (map ?g ?es)"
    using percent_mono [OF assms(2)]
    by (simp add: sorted_map sorted_wrt_iff_nth_less sorted_iff_nth_mono)
  have nonneg: "\<forall>e \<in> set ?es. 0 \<le> e"
  proof
    fix e assume "e \<in> set ?es"
    then have "e \<in> set (map (\<lambda>c. c - clk) (clocks evs))"
      unfolding es by (rule in_set_takeD)
    then show "0 \<le> e" using all by auto
  qed
  have rng: "list_all (\<lambda>r. 0 \<le> r \<and> r \<le> 100) (map ?g ?es)"
    using nonneg assms(2) by (auto simp: list_all_iff)
  show ?thesis using r1 es sr rng unfolding rep by simp
qed

text \<open>
  The theorem on a thirty-second render started at clock 5: the ticks at clock 5, 20
  and 36 report 0, 50 and 100; the last one ends the loop.
\<close>

theorem progress_reports_witness:
  "(case renderVideo a_host 30 [a_picture] YOUTUBE 5 of
      Inl err \<Rightarrow> False
    | Inr s0 \<Rightarrow>
        reported (run s0 [Frame 5 a_video_element, Elapse 16, Frame 20 a_video_element,
                   Elapse 16, Frame 36 a_video_element, Frame 40 a_video_element])
          = [0, 50, 100])"
proof -
  obtain s0 where s0: "renderVideo a_host 30 [a_picture] YOUTUBE 5 = Inr s0"
    by (simp add: renderVideo_def a_host_def)
  have f: "ending (drawFrame (closure_of a_host 30 [a_picture] YOUTUBE) 0 a_video_element)
              = requestAnimationFrame"
     "ending (drawFrame (closure_of a_host 30 [a_picture] YOUTUBE) 15 a_video_element)
              = requestAnimationFrame"
     "ending (drawFrame (closure_of a_host 30 [a_picture] YOUTUBE) 31 a_video_element)
              = setTimeout_stop 500"
    by (simp_all add: drawFrame_def safeIndex_def loadedImages_def a_host_def a_picture_def Let_def)
  have s0': "vars s0 = closure_of a_host 30 [a_picture] YOUTUBE" "startTime s0 = 5"
    "frame_pending s0" "log s0 = []"
    using s0 by (auto simp: renderVideo_def a_host_def)
  have r: "reported (run s0 [Frame 5 a_video_element, Elapse 16, Frame 20 a_video_element,
                   Elapse 16, Frame 36 a_video_element, Frame 40 a_video_element]) = [0, 50, 100]"
    using s0' by (simp add: run_def reported_def f Let_def drawFrame_progress)
  show ?thesis
    using progress_reports [OF s0, of "[Frame 5 a_video_element, Elapse 16, Frame 20 a_video_element,
                   Elapse 16, Frame 36 a_video_element, Frame 40 a_video_element]"] r
    unfolding s0 by simp
qed

section \<open>The empty asset list\<close>

text \<open>
  Claim C9, as amended.  With an empty asset list the download handler returns at once:
  it raises no error and never calls \<open>renderVideo\<close>, so no recording session is
  started and no scene partition is computed.
\<close>

theorem empty_asset_list:
  "handleDownloadVideo h audioBuffer [] p clk = None"
  by (simp add: handleDownloadVideo_def split: option.splits)

text \<open>
  Claim C9 as stated fails: the handler's early return is not an error, and
  \<open>renderVideo\<close> itself, called with no assets, does not fail fast either: it starts
  the recorder, its first tick dies of a \<open>TypeError\<close>, and the promise is never
  settled.
\<close>

theorem empty_asset_list_counterexample:
  "handleDownloadVideo a_host (Some 30) [] TIKTOK 0 = None
   \<and> (case renderVideo a_host 30 [] TIKTOK 0 of
        Inl err \<Rightarrow> False
      | Inr s0 \<Rightarrow>
          state s0 = recording
        \<and> map (\<lambda>(w, e, k). ending k) (log (run s0 [Frame 0 a_video_element])) = [TypeError]
        \<and> resolved (run s0 [Frame 0 a_video_element, Frame 1 a_video_element, Elapse 1000,
                      Timer, Stop]) = None)"
  by (simp add: handleDownloadVideo_def renderVideo_def a_host_def run_def drawFrame_def
        safeIndex_def Let_def closure_of_def loadedImages_def)

end
